theory Spec2Isabelle
  imports Complex_Main "HOL-Library.Multiset" "HOL-Library.Char_ord" "HOL-Library.List_Lexorder"
    "HOL-Library.AList"
begin

section \<open>Activity ordering (scripts/generate-presentation.ts, sortActivitiesByTime)\<close>

text \<open>
  \<^verbatim>\<open>interface Activity { name: string; room: string; time: string; }\<close>
\<close>

record Activity =
  name :: string
  room :: string
  time :: string

text \<open>
  \<^verbatim>\<open>s.split(':')\<close>: the pieces of \<open>s\<close> between the separators; the result always has
  at least one piece.
\<close>

fun str_split :: "char \<Rightarrow> string \<Rightarrow> string list" where
  "str_split sep [] = [[]]"
| "str_split sep (c # cs) =
     (if c = sep then [] # str_split sep cs
      else (case str_split sep cs of
              [] \<Rightarrow> [[c]]
            | w # ws \<Rightarrow> (c # w) # ws))"

definition is_digit :: "char \<Rightarrow> bool" where
  "is_digit c = (48 \<le> (of_char c :: nat) \<and> (of_char c :: nat) \<le> 57)"

definition digit_val :: "char \<Rightarrow> int" where
  "digit_val c = int (of_char c) - 48"

text \<open>
  \<^verbatim>\<open>Number(s)\<close> on a string: the empty string is 0, a string of decimal digits is its
  decimal value, and a string that is no numeric literal is NaN, here \<open>None\<close>. Signed,
  fractional, hexadecimal and blank-padded literals are outside what the schedule holds
  and are not modelled: they are mapped to \<open>None\<close> as well.
\<close>

definition Number :: "string \<Rightarrow> int option" where
  "Number s = (if list_all is_digit s
               then Some (foldl (\<lambda>n c. 10 * n + digit_val c) 0 s)
               else None)"

text \<open>
  \<^verbatim>\<open>a.localeCompare(b)\<close>, as the comparison of the strings character by character, by
  character code: -1, 0 or 1. On strings of digits with the colon at the same place the
  collation order is this order.
\<close>

fun localeCompare :: "string \<Rightarrow> string \<Rightarrow> int" where
  "localeCompare [] [] = 0"
| "localeCompare [] (y # ys) = - 1"
| "localeCompare (x # xs) [] = 1"
| "localeCompare (x # xs) (y # ys) =
     (if (of_char x :: nat) < of_char y then - 1
      else if (of_char y :: nat) < of_char x then 1
      else localeCompare xs ys)"

text \<open>
  \<^verbatim>\<open>const [aHour] = a.time.split(':').map(Number);\<close>
  \<^verbatim>\<open>const aSort = aHour < 12 ? aHour + 24 : aHour;\<close>
  A comparison with NaN is false, so NaN stays NaN.
\<close>

definition hourOf :: "Activity \<Rightarrow> int option" where
  "hourOf a = Number (hd (str_split (CHR '':'') (time a)))"

definition sortKey :: "Activity \<Rightarrow> int option" where
  "sortKey a = (case hourOf a of
                  None \<Rightarrow> None
                | Some h \<Rightarrow> Some (if h < 12 then h + 24 else h))"

text \<open>
  The comparator: \<^verbatim>\<open>return aSort - bSort || a.time.localeCompare(b.time);\<close>
  The difference is taken when it is a number other than 0; when it is 0 or NaN the
  strings are compared.
\<close>

definition compareActivities :: "Activity \<Rightarrow> Activity \<Rightarrow> int" where
  "compareActivities a b =
     (case (sortKey a, sortKey b) of
        (Some x, Some y) \<Rightarrow>
          (if x - y \<noteq> 0 then x - y else localeCompare (time a) (time b))
      | _ \<Rightarrow> localeCompare (time a) (time b))"

text \<open>
  \<^verbatim>\<open>Array.prototype.sort(cmp)\<close> is a stable sort: \<open>a\<close> goes before \<open>b\<close> when
  \<open>cmp a b < 0\<close>, and elements that compare 0 keep their order. It is modelled by the
  stable insertion sort; the copy \<^verbatim>\<open>[...activities]\<close> is the value itself.
\<close>

fun insert_by :: "('a \<Rightarrow> 'a \<Rightarrow> int) \<Rightarrow> 'a \<Rightarrow> 'a list \<Rightarrow> 'a list" where
  "insert_by cmp x [] = [x]"
| "insert_by cmp x (y # ys) =
     (if cmp x y \<le> 0 then x # y # ys else y # insert_by cmp x ys)"

definition array_sort :: "('a \<Rightarrow> 'a \<Rightarrow> int) \<Rightarrow> 'a list \<Rightarrow> 'a list" where
  "array_sort cmp xs = foldr (insert_by cmp) xs []"

definition sortActivitiesByTime :: "Activity list \<Rightarrow> Activity list" where
  "sortActivitiesByTime activities = array_sort compareActivities activities"

text \<open>
  The words of the specification: a time string of the form HH:MM, its hour, and the
  remapped key (hours before 12 come after the hours from 12 on).
\<close>

definition hhmm :: "string \<Rightarrow> bool" where
  "hhmm s = (case s of
               [h1, h2, c, m1, m2] \<Rightarrow>
                 is_digit h1 \<and> is_digit h2 \<and> c = CHR '':'' \<and> is_digit m1 \<and> is_digit m2
             | _ \<Rightarrow> False)"

definition spec_hour :: "string \<Rightarrow> int" where
  "spec_hour s = 10 * digit_val (s ! 0) + digit_val (s ! 1)"

definition spec_key :: "string \<Rightarrow> int" where
  "spec_key s = (if spec_hour s < 12 then spec_hour s + 24 else spec_hour s)"

definition spec_before :: "Activity \<Rightarrow> Activity \<Rightarrow> bool" where
  "spec_before a b =
     (spec_key (time a) < spec_key (time b)
      \<or> (spec_key (time a) = spec_key (time b) \<and> time a \<le> time b))"


section \<open>The file system and the effects of a run\<close>

text \<open>
  The script works on files through \<^verbatim>\<open>Bun.file(p).arrayBuffer()\<close>, \<^verbatim>\<open>readFile\<close>,
  \<^verbatim>\<open>Bun.write\<close>, \<^verbatim>\<open>mkdir\<close>, \<^verbatim>\<open>readdir\<close> and \<^verbatim>\<open>unlink\<close>. The store maps a path to
  a regular file or a directory, in the order in which a directory lists its entries.
  Every call either returns or throws; a throw is the value \<open>Inl\<close>, and the store is
  returned in both cases.
\<close>

type_synonym path = string
type_synonym bytes = "nat list"

datatype node = File bytes | Dir

datatype error =
    ENOENT path
  | EISDIR path
  | EEXIST path
  | ENOTDIR path
  | EPERM path
  | FontFailure nat string
  | LibraryFailure string

text \<open>
  The calls a run makes that the properties below speak about, in the order of the run:
  a process spawned by \<^verbatim>\<open>createSlideFont(inputPath, outputPath, weight)\<close>, a call of
  \<^verbatim>\<open>slide.generate()\<close> for the slide of a name, and a completed \<^verbatim>\<open>Bun.write(path, _)\<close>.
\<close>

datatype event =
    Spawn path path nat
  | Generate string
  | Write path

record world =
  entries :: "(path \<times> node) list"
  events :: "event list"

definition bindE ::
  "(world \<Rightarrow> (error + 'a) \<times> world) \<Rightarrow> ('a \<Rightarrow> world \<Rightarrow> (error + 'b) \<times> world)
     \<Rightarrow> world \<Rightarrow> (error + 'b) \<times> world" where
  "bindE m f w = (case m w of (Inl e, w') \<Rightarrow> (Inl e, w') | (Inr a, w') \<Rightarrow> f a w')"

definition returnE :: "'a \<Rightarrow> world \<Rightarrow> (error + 'a) \<times> world" where
  "returnE a w = (Inr a, w)"

definition liftE :: "error + 'a \<Rightarrow> world \<Rightarrow> (error + 'a) \<times> world" where
  "liftE r w = (r, w)"

definition catchE ::
  "(world \<Rightarrow> (error + 'a) \<times> world) \<Rightarrow> (error \<Rightarrow> world \<Rightarrow> (error + 'a) \<times> world)
     \<Rightarrow> world \<Rightarrow> (error + 'a) \<times> world" where
  "catchE m h w = (case m w of (Inl e, w') \<Rightarrow> h e w' | (Inr a, w') \<Rightarrow> (Inr a, w'))"

definition logE :: "event \<Rightarrow> world \<Rightarrow> (error + unit) \<times> world" where
  "logE ev w = (Inr (), w\<lparr>events := events w @ [ev]\<rparr>)"

text \<open>
  \<^verbatim>\<open>resolve(dir, name)\<close> for a directory and a relative name without dot segments.
\<close>

definition resolve :: "path \<Rightarrow> string \<Rightarrow> path" where
  "resolve dir nm = dir @ ''/'' @ nm"

text \<open>
  \<^verbatim>\<open>await Bun.file(p).arrayBuffer()\<close> and \<^verbatim>\<open>await readFile(p)\<close>: the bytes of a regular
  file; a missing path and a directory throw.
\<close>

definition readFile :: "path \<Rightarrow> world \<Rightarrow> (error + bytes) \<times> world" where
  "readFile p w =
     (case map_of (entries w) p of
        None \<Rightarrow> (Inl (ENOENT p), w)
      | Some Dir \<Rightarrow> (Inl (EISDIR p), w)
      | Some (File b) \<Rightarrow> (Inr b, w))"

text \<open>
  Storing bytes at a path: a new file, or the new content of a file; a directory at
  the path makes the store fail.
\<close>

definition store :: "path \<Rightarrow> bytes \<Rightarrow> world \<Rightarrow> (error + unit) \<times> world" where
  "store p b w =
     (case map_of (entries w) p of
        Some Dir \<Rightarrow> (Inl (EISDIR p), w)
      | _ \<Rightarrow> (Inr (), w\<lparr>entries := AList.update p (File b) (entries w)\<rparr>))"

text \<open>\<^verbatim>\<open>await Bun.write(p, b)\<close>\<close>

definition writeFile :: "path \<Rightarrow> bytes \<Rightarrow> world \<Rightarrow> (error + unit) \<times> world" where
  "writeFile p b = bindE (store p b) (\<lambda>_. logE (Write p))"

text \<open>
  \<^verbatim>\<open>await mkdir(p, { recursive: true })\<close>: nothing to do when the directory exists, an
  error when the path is a regular file. The store does not record the parents.
\<close>

definition mkdir :: "path \<Rightarrow> world \<Rightarrow> (error + unit) \<times> world" where
  "mkdir p w =
     (case map_of (entries w) p of
        Some (File b) \<Rightarrow> (Inl (EEXIST p), w)
      | Some Dir \<Rightarrow> (Inr (), w)
      | None \<Rightarrow> (Inr (), w\<lparr>entries := AList.update p Dir (entries w)\<rparr>))"

text \<open>
  \<^verbatim>\<open>await readdir(dir)\<close>: the names of the entries directly in \<open>dir\<close>, files and
  directories, in the order of the store.
\<close>

definition child_name :: "path \<Rightarrow> path \<Rightarrow> string option" where
  "child_name dir p =
     (let pre = dir @ ''/''; nm = drop (length pre) p
      in if take (length pre) p = pre \<and> nm \<noteq> [] \<and> CHR ''/'' \<notin> set nm then Some nm else None)"

definition readdir :: "path \<Rightarrow> world \<Rightarrow> (error + string list) \<times> world" where
  "readdir dir w =
     (case map_of (entries w) dir of
        None \<Rightarrow> (Inl (ENOENT dir), w)
      | Some (File b) \<Rightarrow> (Inl (ENOTDIR dir), w)
      | Some Dir \<Rightarrow> (Inr (List.map_filter (child_name dir) (map fst (entries w))), w))"

text \<open>\<^verbatim>\<open>await unlink(p)\<close>: removes a regular file; a directory and a missing path throw.\<close>

definition unlink :: "path \<Rightarrow> world \<Rightarrow> (error + unit) \<times> world" where
  "unlink p w =
     (case map_of (entries w) p of
        None \<Rightarrow> (Inl (ENOENT p), w)
      | Some Dir \<Rightarrow> (Inl (EPERM p), w)
      | Some (File b) \<Rightarrow> (Inr (), w\<lparr>entries := AList.delete p (entries w)\<rparr>))"

text \<open>\<^verbatim>\<open>file.endsWith('.png')\<close>\<close>

definition endsWith :: "string \<Rightarrow> string \<Rightarrow> bool" where
  "endsWith s suffix =
     (length suffix \<le> length s \<and> drop (length s - length suffix) s = suffix)"


section \<open>The libraries and the configuration\<close>

text \<open>
  A document of pdf-lib: \<^verbatim>\<open>pdfDoc.addPage([w, h])\<close> appends a page of that size in
  points, and \<^verbatim>\<open>page.drawImage(image, { x, y, width, height })\<close> appends a drawing to the
  page. An embedded image knows the pixel size of its raster.
\<close>

record PDFImage =
  pixel_width :: nat
  pixel_height :: nat
  png_data :: bytes

record DrawImage =
  drawn_image :: PDFImage
  draw_x :: real
  draw_y :: real
  draw_width :: real
  draw_height :: real

record PDFPage =
  page_width :: real
  page_height :: real
  drawn :: "DrawImage list"

record FontSet =
  regular :: bytes
  medium :: bytes
  bold :: bytes

text \<open>\<^verbatim>\<open>interface MiscActivity { name: string; room: string; }\<close>\<close>

record MiscActivity =
  misc_name :: string
  misc_room :: string

text \<open>
  The element tree a slide builder hands to satori. Each builder fills a fixed tree of
  styled boxes with the values below; the fixed styling is left out.
\<close>

datatype layout =
    TitleLayout string
  | QRLayout string string string string bool
  | ActivitiesLayout "Activity list" "MiscActivity list"
  | EscapeGameLayout string
  | AssoLayout string string

text \<open>
  What the script takes from outside: the directory of the repository, the default
  font source \<^verbatim>\<open>resolve(ROOT_DIR, '../astro-design/src/fonts/Cupertino-Pro-Full.woff2')\<close>,
  and the libraries, each a function that returns or throws: the fontTools instancer run
  by python, base64 encoding, the \<^verbatim>\<open>qrcode-svg\<close> encoder, satori, resvg, and pdf-lib's
  \<^verbatim>\<open>embedPng\<close> and the writer that \<^verbatim>\<open>save\<close> serialises the pages with.
\<close>

record env =
  ROOT_DIR :: path
  DEFAULT_FONT :: path
  instancer :: "bytes \<Rightarrow> nat \<Rightarrow> string + bytes"
  base64 :: "bytes \<Rightarrow> string"
  QRCode :: "string \<Rightarrow> nat \<Rightarrow> error + string"
  satori :: "layout \<Rightarrow> FontSet \<Rightarrow> error + string"
  Resvg :: "string \<Rightarrow> error + bytes"
  embedPng :: "bytes \<Rightarrow> error + PDFImage"
  serialize :: "PDFPage list \<Rightarrow> error + bytes"

definition ASSETS_DIR :: "env \<Rightarrow> path" where
  "ASSETS_DIR env = resolve (ROOT_DIR env) ''assets''"

definition LOGO_PATH :: "env \<Rightarrow> path" where
  "LOGO_PATH env = resolve (ASSETS_DIR env) ''AIE.png''"

definition LOCKEDUP_LOGO_PATH :: "env \<Rightarrow> path" where
  "LOCKEDUP_LOGO_PATH env = resolve (ASSETS_DIR env) ''lockedup.logo.png''"

definition DISCORD_URL :: string where
  "DISCORD_URL = ''https://discord.gg/fxWsSSee''"

definition NDI_URL :: string where
  "NDI_URL = ''https://www.nuitdelinfo.com/''"

definition ASSO_URL :: string where
  "ASSO_URL = ''https://asso.info-evry.fr''"

definition SUBJECT_URL :: string where
  "SUBJECT_URL =
     ''https://filesender.renater.fr/?s=download&token=1ee59758-cb41-400c-b6c2-47fc37e1804e''"

definition SCHEDULED_ACTIVITIES :: "Activity list" where
  "SCHEDULED_ACTIVITIES =
     [\<lparr>name = ''Kahoot'', room = ''Grand Amphi'', time = ''23:00''\<rparr>,
      \<lparr>name = ''Kahoot'', room = ''Grand Amphi'', time = ''00:00''\<rparr>]"

definition MISC_ACTIVITIES :: "MiscActivity list" where
  "MISC_ACTIVITIES =
     [\<lparr>misc_name = ''Escape Game'', misc_room = ''Salle 117''\<rparr>,
      \<lparr>misc_name = ''Console & Jeux de societe'', misc_room = ''Salle 111''\<rparr>,
      \<lparr>misc_name = ''Film'', misc_room = ''Grand Amphi''\<rparr>]"

definition CACHE_DIR :: "env \<Rightarrow> path" where
  "CACHE_DIR env = resolve (ROOT_DIR env) ''.cache''"

definition OUTPUT_DIR :: "env \<Rightarrow> path" where
  "OUTPUT_DIR env = resolve (ROOT_DIR env) ''output''"

definition SLIDES_DIR :: "env \<Rightarrow> path" where
  "SLIDES_DIR env = resolve (OUTPUT_DIR env) ''slides''"

text \<open>\<^verbatim>\<open>const FONT_WEIGHTS = { regular: 400, medium: 500, bold: 700 }\<close>\<close>

definition FONT_WEIGHTS_regular :: nat where
  "FONT_WEIGHTS_regular = 400"

definition FONT_WEIGHTS_medium :: nat where
  "FONT_WEIGHTS_medium = 500"

definition FONT_WEIGHTS_bold :: nat where
  "FONT_WEIGHTS_bold = 700"


section \<open>Fonts\<close>

text \<open>
  \<^verbatim>\<open>createSlideFont\<close> spawns python on a script that opens \<open>inputPath\<close>, instantiates
  the font at the weight and saves it to \<open>outputPath\<close>. A script that fails exits with a
  code other than 0, and the function throws
  \<^verbatim>\<open>Failed to create static font at weight ...\<close> with what the process wrote to stderr.
\<close>

definition python_script :: "env \<Rightarrow> path \<Rightarrow> path \<Rightarrow> nat \<Rightarrow> world \<Rightarrow> (string + unit) \<times> world" where
  "python_script env inputPath outputPath weight w =
     (case readFile inputPath w of
        (Inl e, _) \<Rightarrow> (Inl ''FileNotFoundError'', w)
      | (Inr font, _) \<Rightarrow>
          (case instancer env font weight of
             Inl stderr \<Rightarrow> (Inl stderr, w)
           | Inr instanced \<Rightarrow>
               (case store outputPath instanced w of
                  (Inl e, _) \<Rightarrow> (Inl ''IsADirectoryError'', w)
                | (Inr _, w') \<Rightarrow> (Inr (), w'))))"

definition createSlideFont :: "env \<Rightarrow> path \<Rightarrow> path \<Rightarrow> nat \<Rightarrow> world \<Rightarrow> (error + unit) \<times> world" where
  "createSlideFont env inputPath outputPath weight =
     bindE (logE (Spawn inputPath outputPath weight)) (\<lambda>_ w.
       case python_script env inputPath outputPath weight w of
         (Inl stderr, w') \<Rightarrow> (Inl (FontFailure weight stderr), w')
       | (Inr _, w') \<Rightarrow> (Inr (), w'))"

text \<open>
  \<^verbatim>\<open>const fontExists = async (path) => { try { await Bun.file(path).arrayBuffer(); return true; } catch { return false; } }\<close>
\<close>

definition fontExists :: "path \<Rightarrow> world \<Rightarrow> (error + bool) \<times> world" where
  "fontExists p = catchE (bindE (readFile p) (\<lambda>_. returnE True)) (\<lambda>_. returnE False)"

definition loadFonts :: "env \<Rightarrow> path \<Rightarrow> world \<Rightarrow> (error + FontSet) \<times> world" where
  "loadFonts env fontSourcePath =
     bindE (mkdir (CACHE_DIR env)) (\<lambda>_.
     let regularPath = resolve (CACHE_DIR env) ''Cupertino-OG-400.ttf'';
         mediumPath = resolve (CACHE_DIR env) ''Cupertino-OG-500.ttf'';
         boldPath = resolve (CACHE_DIR env) ''Cupertino-OG-700.ttf''
     in
     bindE (fontExists regularPath) (\<lambda>haveRegular.
     bindE (if \<not> haveRegular
            then createSlideFont env fontSourcePath regularPath FONT_WEIGHTS_regular
            else returnE ()) (\<lambda>_.
     bindE (fontExists mediumPath) (\<lambda>haveMedium.
     bindE (if \<not> haveMedium
            then createSlideFont env fontSourcePath mediumPath FONT_WEIGHTS_medium
            else returnE ()) (\<lambda>_.
     bindE (fontExists boldPath) (\<lambda>haveBold.
     bindE (if \<not> haveBold
            then createSlideFont env fontSourcePath boldPath FONT_WEIGHTS_bold
            else returnE ()) (\<lambda>_.
     bindE (readFile regularPath) (\<lambda>regular.
     bindE (readFile mediumPath) (\<lambda>medium.
     bindE (readFile boldPath) (\<lambda>bold.
     returnE \<lparr>regular = regular, medium = medium, bold = bold\<rparr>))))))))))"


section \<open>Slides\<close>

definition generateQRCode :: "env \<Rightarrow> string \<Rightarrow> nat \<Rightarrow> error + string" where
  "generateQRCode env url sz = QRCode env url sz"

definition loadLogoDataUrl :: "env \<Rightarrow> world \<Rightarrow> (error + string) \<times> world" where
  "loadLogoDataUrl env =
     bindE (readFile (LOGO_PATH env)) (\<lambda>logoBuffer.
     returnE (''data:image/png;base64,'' @ base64 env logoBuffer))"

definition loadLockedUpLogoDataUrl :: "env \<Rightarrow> world \<Rightarrow> (error + string) \<times> world" where
  "loadLockedUpLogoDataUrl env =
     bindE (readFile (LOCKEDUP_LOGO_PATH env)) (\<lambda>logoBuffer.
     returnE (''data:image/png;base64,'' @ base64 env logoBuffer))"

text \<open>
  The builders read no file and keep no state: each builds its element tree and returns
  what satori makes of it, or throws what a library throws.
\<close>

definition generateTitleSlide :: "env \<Rightarrow> FontSet \<Rightarrow> string \<Rightarrow> error + string" where
  "generateTitleSlide env fonts logoDataUrl = satori env (TitleLayout logoDataUrl) fonts"

definition generateQRSlide ::
  "env \<Rightarrow> FontSet \<Rightarrow> string \<Rightarrow> string \<Rightarrow> string \<Rightarrow> bool \<Rightarrow> error + string" where
  "generateQRSlide env fonts title subtitle url showHeader =
     (let qrSize = 800 in
      case generateQRCode env url qrSize of
        Inl e \<Rightarrow> Inl e
      | Inr qrSvg \<Rightarrow>
          (let qrBase64 = base64 env (map of_char qrSvg);
               qrDataUrl = ''data:image/svg+xml;base64,'' @ qrBase64
           in satori env (QRLayout title subtitle url qrDataUrl showHeader) fonts))"

definition generateActivitiesSlide :: "env \<Rightarrow> FontSet \<Rightarrow> error + string" where
  "generateActivitiesSlide env fonts =
     (let sortedActivities = sortActivitiesByTime SCHEDULED_ACTIVITIES
      in satori env (ActivitiesLayout sortedActivities MISC_ACTIVITIES) fonts)"

definition generateEscapeGameSlide :: "env \<Rightarrow> FontSet \<Rightarrow> string \<Rightarrow> error + string" where
  "generateEscapeGameSlide env fonts lockedUpLogoDataUrl =
     satori env (EscapeGameLayout lockedUpLogoDataUrl) fonts"

definition generateAssoSlide :: "env \<Rightarrow> FontSet \<Rightarrow> string \<Rightarrow> error + string" where
  "generateAssoSlide env fonts logoDataUrl =
     (let qrSize = 600 in
      case generateQRCode env ASSO_URL qrSize of
        Inl e \<Rightarrow> Inl e
      | Inr qrSvg \<Rightarrow>
          (let qrBase64 = base64 env (map of_char qrSvg);
               qrDataUrl = ''data:image/svg+xml;base64,'' @ qrBase64
           in satori env (AssoLayout logoDataUrl qrDataUrl) fonts))"

definition svgToPng :: "env \<Rightarrow> string \<Rightarrow> error + bytes" where
  "svgToPng env svg = Resvg env svg"


section \<open>The document\<close>

text \<open>
  The loop of \<^verbatim>\<open>generatePDF\<close> over \<open>pngPaths\<close>; \<open>pdfDoc\<close> is the document built so far.
\<close>

fun add_pages :: "env \<Rightarrow> path list \<Rightarrow> PDFPage list \<Rightarrow> world \<Rightarrow> (error + PDFPage list) \<times> world" where
  "add_pages env [] pdfDoc = returnE pdfDoc"
| "add_pages env (pngPath # rest) pdfDoc =
     bindE (readFile pngPath) (\<lambda>pngBytes.
     bindE (liftE (embedPng env pngBytes)) (\<lambda>pngImage.
     let pageWidth = 1920;
         pageHeight = 1080;
         page = \<lparr>page_width = pageWidth, page_height = pageHeight,
                 drawn = [\<lparr>drawn_image = pngImage, draw_x = 0, draw_y = 0,
                           draw_width = pageWidth, draw_height = pageHeight\<rparr>]\<rparr>
     in add_pages env rest (pdfDoc @ [page])))"

text \<open>
  \<^verbatim>\<open>await pdfDoc.save()\<close> with the options left at their defaults: pdf-lib first adds a
  page to a document without pages (\<^verbatim>\<open>addDefaultPage\<close>, a page of \<^verbatim>\<open>PageSizes.A4\<close> with
  nothing drawn on it) and then serialises the pages. \<open>saved_pages\<close> are the pages of the
  document that is produced.
\<close>

definition DEFAULT_PAGE :: PDFPage where
  "DEFAULT_PAGE = \<lparr>page_width = 595.28, page_height = 841.89, drawn = []\<rparr>"

definition saved_pages :: "PDFPage list \<Rightarrow> PDFPage list" where
  "saved_pages pdfDoc = (case pdfDoc of [] \<Rightarrow> [DEFAULT_PAGE] | _ \<Rightarrow> pdfDoc)"

definition save :: "env \<Rightarrow> PDFPage list \<Rightarrow> error + bytes" where
  "save env pdfDoc = serialize env (saved_pages pdfDoc)"

definition generatePDF :: "env \<Rightarrow> path list \<Rightarrow> path \<Rightarrow> world \<Rightarrow> (error + unit) \<times> world" where
  "generatePDF env pngPaths outputPath =
     bindE (add_pages env pngPaths []) (\<lambda>pdfDoc.
     bindE (liftE (save env pdfDoc)) (\<lambda>pdfBytes.
     writeFile outputPath pdfBytes))"


section \<open>Cleanup\<close>

text \<open>The loop of \<^verbatim>\<open>cleanupSlides\<close> over the names \<^verbatim>\<open>readdir\<close> returned.\<close>

fun unlink_pngs :: "path \<Rightarrow> string list \<Rightarrow> world \<Rightarrow> (error + unit) \<times> world" where
  "unlink_pngs slidesDir [] = returnE ()"
| "unlink_pngs slidesDir (file # files) =
     bindE (if endsWith file ''.png'' then unlink (resolve slidesDir file) else returnE ())
       (\<lambda>_. unlink_pngs slidesDir files)"

definition cleanupSlides :: "path \<Rightarrow> world \<Rightarrow> (error + unit) \<times> world" where
  "cleanupSlides slidesDir =
     catchE (bindE (readdir slidesDir) (\<lambda>files. unlink_pngs slidesDir files))
       (\<lambda>_. returnE ())"


section \<open>The run\<close>

text \<open>
  The slides of \<^verbatim>\<open>generatePresentation\<close>, each a name and what its \<^verbatim>\<open>generate\<close> gives
  when it is called.
\<close>

definition slides :: "env \<Rightarrow> FontSet \<Rightarrow> string \<Rightarrow> string \<Rightarrow> (string \<times> (error + string)) list" where
  "slides env fonts logoDataUrl lockedUpLogoDataUrl =
     [(''01-title'', generateTitleSlide env fonts logoDataUrl),
      (''02-discord'',
         generateQRSlide env fonts ''Discord''
           (''Discord de l'' @ [CHR 0x27] @ ''evenement a Evry'') DISCORD_URL True),
      (''03-nuitdelinfo'',
         generateQRSlide env fonts (''Nuit de l'' @ [CHR 0x27] @ ''Info'')
           ''Site officiel - Inscription aux defis avant 21h'' NDI_URL True),
      (''04-programme'', generateActivitiesSlide env fonts),
      (''05-escape-game'', generateEscapeGameSlide env fonts lockedUpLogoDataUrl),
      (''06-asso'', generateAssoSlide env fonts logoDataUrl),
      (''07-sujet'',
         generateQRSlide env fonts ''Sujet de la Nuit''
           (''Telechargez le sujet officiel de l'' @ [CHR 0x27] @ ''evenement'') SUBJECT_URL True)]"

text \<open>
  The loop over the slides; \<open>pngPaths\<close> are the paths pushed so far. The messages of
  the verbose mode go to the console and are not part of the model.
\<close>

fun generate_slides ::
  "env \<Rightarrow> (string \<times> (error + string)) list \<Rightarrow> path list \<Rightarrow> world \<Rightarrow> (error + path list) \<times> world" where
  "generate_slides env [] pngPaths = returnE pngPaths"
| "generate_slides env (slide # rest) pngPaths =
     bindE (logE (Generate (fst slide))) (\<lambda>_.
     bindE (liftE (snd slide)) (\<lambda>svg.
     bindE (liftE (svgToPng env svg)) (\<lambda>png.
     let outputPath = resolve (SLIDES_DIR env) (fst slide @ ''.png'') in
     bindE (writeFile outputPath png) (\<lambda>_.
     generate_slides env rest (pngPaths @ [outputPath])))))"

text \<open>
  \<^verbatim>\<open>generatePresentation(verbose, fontPath)\<close>: \<open>None\<close> is an absent \<open>fontPath\<close>, and
  \<^verbatim>\<open>fontPath || ...\<close> takes the default for the empty string too. The inner
  \<^verbatim>\<open>try\<close> returns \<open>false\<close> when the font source cannot be read; the outer \<^verbatim>\<open>catch\<close>
  returns \<open>false\<close> for everything thrown elsewhere.
\<close>

definition generatePresentation :: "env \<Rightarrow> bool \<Rightarrow> path option \<Rightarrow> world \<Rightarrow> bool \<times> world" where
  "generatePresentation env verbose fontPath w =
     (case
        bindE (mkdir (SLIDES_DIR env)) (\<lambda>_.
        let fontSourcePath =
              (case fontPath of
                 None \<Rightarrow> DEFAULT_FONT env
               | Some p \<Rightarrow> if p = [] then DEFAULT_FONT env else p)
        in
        bindE (catchE (bindE (readFile fontSourcePath) (\<lambda>_. returnE True))
                 (\<lambda>_. returnE False)) (\<lambda>found.
        if \<not> found then returnE False
        else
          bindE (loadFonts env fontSourcePath) (\<lambda>fonts.
          bindE (loadLogoDataUrl env) (\<lambda>logoDataUrl.
          bindE (loadLockedUpLogoDataUrl env) (\<lambda>lockedUpLogoDataUrl.
          bindE (generate_slides env (slides env fonts logoDataUrl lockedUpLogoDataUrl) [])
            (\<lambda>pngPaths.
          let pdfPath = resolve (OUTPUT_DIR env) ''presentation.pdf'' in
          bindE (generatePDF env pngPaths pdfPath) (\<lambda>_.
          bindE (cleanupSlides (SLIDES_DIR env)) (\<lambda>_.
          returnE True)))))))) w
      of
        (Inl e, w') \<Rightarrow> (False, w')
      | (Inr ok, w') \<Rightarrow> (ok, w'))"


section \<open>Words of the specification about the document\<close>

text \<open>
  A path is a readable image when it is a regular file whose bytes pdf-lib embeds; a page
  is full-bleed for an image when it has the fixed size in points and the image is drawn
  once, at the origin, as wide and as high as the page.
\<close>

definition holds_image :: "env \<Rightarrow> world \<Rightarrow> path \<Rightarrow> PDFImage \<Rightarrow> bool" where
  "holds_image env w p img =
     (case map_of (entries w) p of
        Some (File b) \<Rightarrow> embedPng env b = Inr img
      | _ \<Rightarrow> False)"

definition full_bleed :: "PDFImage \<Rightarrow> PDFPage \<Rightarrow> bool" where
  "full_bleed img page =
     (page_width page = 1920 \<and> page_height page = 1080
      \<and> drawn page = [\<lparr>drawn_image = img, draw_x = 0, draw_y = 0,
                        draw_width = page_width page, draw_height = page_height page\<rparr>])"


section \<open>A concrete environment\<close>

text \<open>
  Libraries that always return (the writer gives the number of pages, then the bytes of
  the images drawn), and some stores: one with the font source and the two
  logos, one with two rasters, one where the slide directory of an earlier run holds a
  directory that is named like a raster, and one where the derivative of the weight 400
  is in the cache.
\<close>

definition demo_env :: env where
  "demo_env =
     \<lparr>ROOT_DIR = ''/r'', DEFAULT_FONT = ''/f'',
      instancer = (\<lambda>font weight. Inr (weight # font)),
      base64 = map char_of,
      QRCode = (\<lambda>url sz. Inr url),
      satori = (\<lambda>l fonts. Inr (case l of
                  TitleLayout _ \<Rightarrow> ''T''
                | QRLayout title _ _ _ _ \<Rightarrow> title
                | ActivitiesLayout _ _ \<Rightarrow> ''A''
                | EscapeGameLayout _ \<Rightarrow> ''E''
                | AssoLayout _ _ \<Rightarrow> ''O'')),
      Resvg = (\<lambda>svg. Inr (map of_char svg)),
      embedPng = (\<lambda>b. Inr \<lparr>pixel_width = 3840, pixel_height = 2160, png_data = b\<rparr>),
      serialize = (\<lambda>doc. Inr (length doc
                  # concat (map (\<lambda>pg. concat (map (\<lambda>d. png_data (drawn_image d)) (drawn pg))) doc)))\<rparr>"

definition demo_world :: world where
  "demo_world =
     \<lparr>entries = [(''/f'', File [1]), (''/r/assets/AIE.png'', File [2]),
                 (''/r/assets/lockedup.logo.png'', File [3])],
      events = []\<rparr>"

definition demo_rasters :: world where
  "demo_rasters =
     \<lparr>entries = [(''/a.png'', File [1]), (''/b.png'', File [2, 3])], events = []\<rparr>"

definition demo_stale :: world where
  "demo_stale =
     \<lparr>entries = [(''/f'', File [1]), (''/r/assets/AIE.png'', File [2]),
                 (''/r/assets/lockedup.logo.png'', File [3]),
                 (''/r/output/slides'', Dir),
                 (''/r/output/slides/00-old.png'', Dir)],
      events = []\<rparr>"

definition demo_cached :: world where
  "demo_cached =
     \<lparr>entries = [(''/f'', File [1]), (''/r/.cache'', Dir),
                 (''/r/.cache/Cupertino-OG-400.ttf'', File [4])],
      events = []\<rparr>"

text \<open>The world after the run on \<open>demo_stale\<close>.\<close>

definition demo_stale_after :: world where
  "demo_stale_after =
     \<lparr>entries =
        [(''/f'', File [1]), (''/r/assets/AIE.png'', File [2]),
         (''/r/assets/lockedup.logo.png'', File [3]),
         (''/r/output/slides'', Dir), (''/r/output/slides/00-old.png'', Dir),
         (''/r/.cache'', Dir),
         (''/r/.cache/Cupertino-OG-400.ttf'', File [400, 1]),
         (''/r/.cache/Cupertino-OG-500.ttf'', File [500, 1]),
         (''/r/.cache/Cupertino-OG-700.ttf'', File [700, 1]),
         (''/r/output/slides/01-title.png'', File [84]),
         (''/r/output/slides/02-discord.png'', File [68, 105, 115, 99, 111, 114, 100]),
         (''/r/output/slides/03-nuitdelinfo.png'',
          File [78, 117, 105, 116, 32, 100, 101, 32, 108, 39, 73, 110, 102, 111]),
         (''/r/output/slides/04-programme.png'', File [65]),
         (''/r/output/slides/05-escape-game.png'', File [69]),
         (''/r/output/slides/06-asso.png'', File [79]),
         (''/r/output/slides/07-sujet.png'',
          File [83, 117, 106, 101, 116, 32, 100, 101, 32, 108, 97, 32, 78, 117, 105, 116]),
         (''/r/output/presentation.pdf'',
          File [7, 84, 68, 105, 115, 99, 111, 114, 100, 78, 117, 105, 116, 32, 100, 101, 32,
                108, 39, 73, 110, 102, 111, 65, 69, 79, 83, 117, 106, 101, 116, 32, 100, 101,
                32, 108, 97, 32, 78, 117, 105, 116])],
      events =
        [Spawn ''/f'' ''/r/.cache/Cupertino-OG-400.ttf'' 400,
         Spawn ''/f'' ''/r/.cache/Cupertino-OG-500.ttf'' 500,
         Spawn ''/f'' ''/r/.cache/Cupertino-OG-700.ttf'' 700,
         Generate ''01-title'', Write ''/r/output/slides/01-title.png'',
         Generate ''02-discord'', Write ''/r/output/slides/02-discord.png'',
         Generate ''03-nuitdelinfo'', Write ''/r/output/slides/03-nuitdelinfo.png'',
         Generate ''04-programme'', Write ''/r/output/slides/04-programme.png'',
         Generate ''05-escape-game'', Write ''/r/output/slides/05-escape-game.png'',
         Generate ''06-asso'', Write ''/r/output/slides/06-asso.png'',
         Generate ''07-sujet'', Write ''/r/output/slides/07-sujet.png'',
         Write ''/r/output/presentation.pdf'']\<rparr>"


section \<open>Invariants of a run\<close>

text \<open>
  A predicate on the world that every step of a computation keeps, whether the step
  returns or throws, and what makes a predicate stable under the changes the file
  operations make.
\<close>

definition keeps :: "(world \<Rightarrow> bool) \<Rightarrow> (world \<Rightarrow> (error + 'a) \<times> world) \<Rightarrow> bool" where
  "keeps I m = (\<forall>w. I w \<longrightarrow> I (snd (m w)))"

definition stable_store :: "(world \<Rightarrow> bool) \<Rightarrow> path \<Rightarrow> bool" where
  "stable_store I p =
     (\<forall>w b. I w \<longrightarrow> map_of (entries w) p \<noteq> Some Dir
        \<longrightarrow> I (w\<lparr>entries := AList.update p (File b) (entries w)\<rparr>))"

definition stable_mkdir :: "(world \<Rightarrow> bool) \<Rightarrow> path \<Rightarrow> bool" where
  "stable_mkdir I p =
     (\<forall>w. I w \<longrightarrow> map_of (entries w) p = None
        \<longrightarrow> I (w\<lparr>entries := AList.update p Dir (entries w)\<rparr>))"

definition stable_unlink :: "(world \<Rightarrow> bool) \<Rightarrow> path \<Rightarrow> bool" where
  "stable_unlink I p =
     (\<forall>w b. I w \<longrightarrow> map_of (entries w) p = Some (File b)
        \<longrightarrow> I (w\<lparr>entries := AList.delete p (entries w)\<rparr>))"

definition stable_log :: "(world \<Rightarrow> bool) \<Rightarrow> event \<Rightarrow> bool" where
  "stable_log I ev = (\<forall>w. I w \<longrightarrow> I (w\<lparr>events := events w @ [ev]\<rparr>))"

text \<open>
  A computation keeps \<open>I\<close> and, when it returns, returns a value with \<open>Q\<close>.
\<close>

definition yields :: "(world \<Rightarrow> bool) \<Rightarrow> (world \<Rightarrow> (error + 'a) \<times> world) \<Rightarrow> ('a \<Rightarrow> bool) \<Rightarrow> bool" where
  "yields I m Q = (\<forall>w. I w \<longrightarrow> I (snd (m w)) \<and> (\<forall>a. fst (m w) = Inr a \<longrightarrow> Q a))"

text \<open>
  The cached derivative at \<open>p\<close> still holds the bytes \<open>b\<close>, and since the events \<open>evs0\<close>
  no process has been spawned for the weight \<open>wt\<close>.
\<close>

definition cached :: "path \<Rightarrow> bytes \<Rightarrow> nat \<Rightarrow> event list \<Rightarrow> world \<Rightarrow> bool" where
  "cached p b wt evs0 w =
     (map_of (entries w) p = Some (File b)
      \<and> (\<exists>evs. events w = evs0 @ evs \<and> (\<forall>i q. Spawn i q wt \<notin> set evs)))"

text \<open>The paths of the completed \<^verbatim>\<open>Bun.write\<close> calls among some events, in order.\<close>

fun written :: "event list \<Rightarrow> path list" where
  "written [] = []"
| "written (Write p # evs) = p # written evs"
| "written (Spawn i p wt # evs) = written evs"
| "written (Generate nm # evs) = written evs"

definition only_spawns :: "event list \<Rightarrow> world \<Rightarrow> bool" where
  "only_spawns evs0 w = (\<exists>evs. events w = evs0 @ evs \<and> written evs = [])"

text \<open>
  Since the events \<open>evs0\<close> no \<^verbatim>\<open>Bun.write\<close> to \<open>p\<close> has completed.
\<close>

definition not_written :: "path \<Rightarrow> event list \<Rightarrow> world \<Rightarrow> bool" where
  "not_written p evs0 w = (\<exists>evs. events w = evs0 @ evs \<and> p \<notin> set (written evs))"

text \<open>
  From a world with \<open>J\<close>, a computation either keeps \<open>J\<close> or returns \<open>True\<close>.
\<close>

definition reported :: "(world \<Rightarrow> bool) \<Rightarrow> (world \<Rightarrow> (error + bool) \<times> world) \<Rightarrow> bool" where
  "reported J m = (\<forall>w. J w \<longrightarrow> J (snd (m w)) \<or> fst (m w) = Inr True)"

text \<open>
  The store names every path once, the slide directory is a directory, and no directory
  directly in it is named like a raster.
\<close>

definition tidy :: "env \<Rightarrow> world \<Rightarrow> bool" where
  "tidy env w =
     (distinct (map fst (entries w))
      \<and> map_of (entries w) (SLIDES_DIR env) = Some Dir
      \<and> \<not> (\<exists>nm. endsWith nm ''.png'' \<and> CHR ''/'' \<notin> set nm
               \<and> map_of (entries w) (resolve (SLIDES_DIR env) nm) = Some Dir))"


section \<open>Properties of the activity ordering\<close>

lemma localeCompare_less: "localeCompare s t < 0 \<longleftrightarrow> s < t"
  by (induction s t rule: localeCompare.induct) (auto simp: less_char_def)

lemma localeCompare_zero: "localeCompare s t = 0 \<longleftrightarrow> s = t"
  by (induction s t rule: localeCompare.induct) (auto simp: less_char_def)

lemma localeCompare_le: "localeCompare s t \<le> 0 \<longleftrightarrow> s \<le> t"
  using localeCompare_less [of s t] localeCompare_zero [of s t] by (auto simp: order_le_less)

lemma is_digit_not_colon: "is_digit c \<Longrightarrow> c \<noteq> CHR '':''"
  by (auto simp: is_digit_def)

lemma hhmmE:
  assumes "hhmm s"
  obtains h1 h2 m1 m2 where "s = [h1, h2, CHR '':'', m1, m2]"
    "is_digit h1" "is_digit h2" "is_digit m1" "is_digit m2"
proof -
  from assms obtain h1 h2 c m1 m2 where s: "s = [h1, h2, c, m1, m2]"
    unfolding hhmm_def by (simp split: list.splits)
  with assms show ?thesis using that by (simp add: hhmm_def)
qed

lemma hhmm_hour: "hhmm s \<Longrightarrow> Number (hd (str_split (CHR '':'') s)) = Some (spec_hour s)"
  by (erule hhmmE) (simp add: Number_def spec_hour_def is_digit_not_colon)

lemma hhmm_sortKey: "hhmm (time a) \<Longrightarrow> sortKey a = Some (spec_key (time a))"
  by (simp add: sortKey_def hourOf_def hhmm_hour spec_key_def)

lemma compare_spec: "hhmm (time a) \<Longrightarrow> hhmm (time b) \<Longrightarrow> compareActivities a b \<le> 0 \<longleftrightarrow> spec_before a b"
  by (auto simp: compareActivities_def hhmm_sortKey spec_before_def localeCompare_le)

lemma set_insert_by: "set (insert_by cmp x ys) = insert x (set ys)"
  by (induction ys) auto

lemma mset_insert_by: "mset (insert_by cmp x ys) = add_mset x (mset ys)"
  by (induction ys) auto

lemma mset_array_sort: "mset (array_sort cmp xs) = mset xs"
  by (induction xs) (auto simp: array_sort_def mset_insert_by)

lemma sorted_insert_by:
  assumes tot: "\<And>a b. a \<in> A \<Longrightarrow> b \<in> A \<Longrightarrow> cmp a b \<le> 0 \<or> cmp b a \<le> 0"
    and tr: "\<And>a b c. a \<in> A \<Longrightarrow> b \<in> A \<Longrightarrow> c \<in> A \<Longrightarrow> cmp a b \<le> 0 \<Longrightarrow> cmp b c \<le> 0 \<Longrightarrow> cmp a c \<le> 0"
    and x: "x \<in> A"
  shows "set ys \<subseteq> A \<Longrightarrow> sorted_wrt (\<lambda>a b. cmp a b \<le> 0) ys
    \<Longrightarrow> sorted_wrt (\<lambda>a b. cmp a b \<le> 0) (insert_by cmp x ys)"
proof (induction ys)
  case Nil
  then show ?case by simp
next
  case (Cons y ys)
  have y: "y \<in> A" and ys: "set ys \<subseteq> A" using Cons.prems(1) by simp_all
  have yz: "\<forall>z \<in> set ys. cmp y z \<le> 0" and srt: "sorted_wrt (\<lambda>a b. cmp a b \<le> 0) ys"
    using Cons.prems(2) by simp_all
  show ?case
  proof (cases "cmp x y \<le> 0")
    case True
    have "\<forall>z \<in> set ys. cmp x z \<le> 0"
    proof
      fix z assume z: "z \<in> set ys"
      then have "z \<in> A" using ys by blast
      then show "cmp x z \<le> 0" using tr [OF x y _ True] yz z by blast
    qed
    then show ?thesis using True Cons.prems(2) by simp
  next
    case False
    then have yx: "cmp y x \<le> 0" using tot [OF x y] by blast
    have "sorted_wrt (\<lambda>a b. cmp a b \<le> 0) (insert_by cmp x ys)"
      using Cons.IH [OF ys srt] .
    then show ?thesis using False yx yz by (simp add: set_insert_by)
  qed
qed

lemma set_array_sort: "set (array_sort cmp xs) = set xs"
  by (induction xs) (simp_all add: array_sort_def set_insert_by)

lemma sorted_array_sort:
  assumes tot: "\<And>a b. a \<in> A \<Longrightarrow> b \<in> A \<Longrightarrow> cmp a b \<le> 0 \<or> cmp b a \<le> 0"
    and tr: "\<And>a b c. a \<in> A \<Longrightarrow> b \<in> A \<Longrightarrow> c \<in> A \<Longrightarrow> cmp a b \<le> 0 \<Longrightarrow> cmp b c \<le> 0 \<Longrightarrow> cmp a c \<le> 0"
  shows "set xs \<subseteq> A \<Longrightarrow> sorted_wrt (\<lambda>a b. cmp a b \<le> 0) (array_sort cmp xs)"
proof (induction xs)
  case Nil
  then show ?case by (simp add: array_sort_def)
next
  case (Cons x xs)
  have x: "x \<in> A" and xs: "set xs \<subseteq> A" using Cons.prems by simp_all
  have s: "set (array_sort cmp xs) \<subseteq> A" using xs by (simp add: set_array_sort)
  have "sorted_wrt (\<lambda>a b. cmp a b \<le> 0) (insert_by cmp x (array_sort cmp xs))"
    using tot tr x s Cons.IH [OF xs] by (rule sorted_insert_by)
  then show ?case by (simp add: array_sort_def)
qed

lemma spec_before_total: "spec_before a b \<or> spec_before b a"
  by (auto simp: spec_before_def)

lemma spec_before_trans: "spec_before a b \<Longrightarrow> spec_before b c \<Longrightarrow> spec_before a c"
  by (auto simp: spec_before_def)

text \<open>
  C1. For every list of activities whose time strings have the form HH:MM,
  \<open>sortActivitiesByTime\<close> returns the same activities ordered by the remapped hour (the
  hour plus 24 when it is below 12, the hour itself from 12 on), and by the time strings
  in lexicographic order where the remapped hours are equal. The list with the times
  23:00, 00:00, 08:00 comes out in the order 23:00, 00:00, 08:00.
\<close>

theorem sortActivitiesByTime_ordered:
  assumes "\<forall>a \<in> set activities. hhmm (time a)"
  shows "sorted_wrt spec_before (sortActivitiesByTime activities)
       \<and> mset (sortActivitiesByTime activities) = mset activities
       \<and> map time (sortActivitiesByTime
            [\<lparr>name = [], room = [], time = ''23:00''\<rparr>,
             \<lparr>name = [], room = [], time = ''00:00''\<rparr>,
             \<lparr>name = [], room = [], time = ''08:00''\<rparr>]) = [''23:00'', ''00:00'', ''08:00'']"
proof -
  let ?A = "{a::Activity. hhmm (time a)}"
  have m: "mset (sortActivitiesByTime activities) = mset activities"
    by (simp add: sortActivitiesByTime_def mset_array_sort)
  have "sorted_wrt (\<lambda>a b. compareActivities a b \<le> 0) (array_sort compareActivities activities)"
  proof (rule sorted_array_sort [where A = ?A])
    show "set activities \<subseteq> ?A" using assms by auto
  next
    fix a b assume "a \<in> ?A" "b \<in> ?A"
    then show "compareActivities a b \<le> 0 \<or> compareActivities b a \<le> 0"
      using spec_before_total [of a b] by (simp add: compare_spec)
  next
    fix a b c assume "a \<in> ?A" "b \<in> ?A" "c \<in> ?A" "compareActivities a b \<le> 0" "compareActivities b c \<le> 0"
    then show "compareActivities a c \<le> 0"
      using spec_before_trans [of a b c] by (simp add: compare_spec)
  qed
  then have "sorted_wrt spec_before (sortActivitiesByTime activities)"
    unfolding sortActivitiesByTime_def
  proof (rule sorted_wrt_mono_rel [rotated])
    fix a b assume "a \<in> set (array_sort compareActivities activities)" "b \<in> set (array_sort compareActivities activities)"
      "compareActivities a b \<le> 0"
    moreover have "set (array_sort compareActivities activities) = set activities"
      by (rule set_array_sort)
    ultimately show "spec_before a b" using assms by (simp add: compare_spec)
  qed
  moreover have "map time (sortActivitiesByTime
            [\<lparr>name = [], room = [], time = ''23:00''\<rparr>,
             \<lparr>name = [], room = [], time = ''00:00''\<rparr>,
             \<lparr>name = [], room = [], time = ''08:00''\<rparr>]) = [''23:00'', ''00:00'', ''08:00'']"
    by code_simp
  ultimately show ?thesis using m by simp
qed

theorem sortActivitiesByTime_ordered_witness:
  "hhmm ''23:00'' \<and> hhmm ''00:00''
   \<and> sorted_wrt spec_before (sortActivitiesByTime SCHEDULED_ACTIVITIES)
   \<and> mset (sortActivitiesByTime SCHEDULED_ACTIVITIES) = mset SCHEDULED_ACTIVITIES"
proof -
  have h: "\<forall>a \<in> set SCHEDULED_ACTIVITIES. hhmm (time a)"
    by (simp add: SCHEDULED_ACTIVITIES_def hhmm_def is_digit_def)
  show ?thesis using h sortActivitiesByTime_ordered [OF h]
    by (simp add: SCHEDULED_ACTIVITIES_def)
qed


section \<open>Properties of the document assembler\<close>

lemma bindE_success:
  assumes "bindE m f w = (Inr b, w'')"
  obtains a w' where "m w = (Inr a, w')" "f a w' = (Inr b, w'')"
  using assms by (auto simp: bindE_def split: prod.splits sum.splits)

lemma readFile_File: "map_of (entries w) p = Some (File b) \<Longrightarrow> readFile p w = (Inr b, w)"
  by (simp add: readFile_def)

lemma readFile_success: "readFile p w = (Inr b, w') \<Longrightarrow> w' = w \<and> map_of (entries w) p = Some (File b)"
  by (auto simp: readFile_def split: option.splits node.splits)

lemma readFile_failure:
  "\<forall>b. map_of (entries w) p \<noteq> Some (File b) \<Longrightarrow> \<exists>e. readFile p w = (Inl e, w)"
  by (auto simp: readFile_def split: option.splits node.splits)

lemma readFile_state: "snd (readFile p w) = w"
  by (auto simp: readFile_def split: option.splits node.splits)

lemma holds_imageE:
  assumes "holds_image env w p img"
  obtains b where "map_of (entries w) p = Some (File b)" "embedPng env b = Inr img"
  using assms by (auto simp: holds_image_def split: option.splits node.splits)

lemma add_pages_state: "snd (add_pages env ps doc w) = w"
proof (induction ps arbitrary: doc)
  case Nil
  then show ?case by (simp add: returnE_def)
next
  case (Cons p ps)
  show ?case
  proof (cases "readFile p w")
    case (Pair r w1)
    then have w1: "w1 = w" using readFile_state [of p w] by simp
    show ?thesis
    proof (cases r)
      case (Inl e)
      then show ?thesis using Pair w1 by (simp add: bindE_def)
    next
      case (Inr b)
      show ?thesis
      proof (cases "embedPng env b")
        case (Inl e)
        then show ?thesis using Pair w1 Inr by (simp add: bindE_def liftE_def)
      next
        case (Inr img)
        then show ?thesis using Pair w1 \<open>r = Inr b\<close> Cons.IH by (simp add: bindE_def liftE_def Let_def)
      qed
    qed
  qed
qed

lemma add_pages_readable:
  assumes "\<forall>p \<in> set ps. \<exists>img. holds_image env w p img"
  shows "\<exists>pages. add_pages env ps doc w = (Inr (doc @ pages), w)
           \<and> list_all2 (\<lambda>p page. \<exists>img. holds_image env w p img \<and> full_bleed img page) ps pages"
  using assms
proof (induction ps arbitrary: doc)
  case Nil
  then show ?case by (simp add: returnE_def)
next
  case (Cons p ps)
  from Cons.prems obtain img where img: "holds_image env w p img" by auto
  then obtain b where b: "map_of (entries w) p = Some (File b)" "embedPng env b = Inr img"
    by (rule holds_imageE)
  define page where "page = \<lparr>page_width = 1920, page_height = 1080,
     drawn = [\<lparr>drawn_image = img, draw_x = 0, draw_y = 0, draw_width = 1920, draw_height = 1080\<rparr>]\<rparr>"
  have fb: "full_bleed img page" by (simp add: full_bleed_def page_def)
  from Cons.prems have "\<forall>p \<in> set ps. \<exists>img. holds_image env w p img" by simp
  from Cons.IH [OF this, of "doc @ [page]"] obtain pages where
    pages: "add_pages env ps (doc @ [page]) w = (Inr (doc @ [page] @ pages), w)"
      "list_all2 (\<lambda>p page. \<exists>img. holds_image env w p img \<and> full_bleed img page) ps pages"
    by auto
  have "add_pages env (p # ps) doc w = add_pages env ps (doc @ [page]) w"
    by (simp add: bindE_def liftE_def readFile_File [OF b(1)] b(2) page_def)
  then have "add_pages env (p # ps) doc w = (Inr (doc @ (page # pages)), w)"
    using pages(1) by simp
  moreover have "list_all2 (\<lambda>p page. \<exists>img. holds_image env w p img \<and> full_bleed img page)
      (p # ps) (page # pages)"
    using pages(2) img fb by auto
  ultimately show ?case by blast
qed

lemma add_pages_unreadable:
  assumes "\<exists>p \<in> set ps. \<forall>b. map_of (entries w) p \<noteq> Some (File b)"
  shows "\<exists>e. fst (add_pages env ps doc w) = Inl e"
  using assms
proof (induction ps arbitrary: doc)
  case Nil
  then show ?case by simp
next
  case (Cons p ps)
  show ?case
  proof (cases "\<forall>b. map_of (entries w) p \<noteq> Some (File b)")
    case True
    then obtain e where "readFile p w = (Inl e, w)" using readFile_failure by blast
    then show ?thesis by (simp add: bindE_def)
  next
    case False
    then obtain b where b: "map_of (entries w) p = Some (File b)" by blast
    with Cons.prems have rest: "\<exists>p \<in> set ps. \<forall>b. map_of (entries w) p \<noteq> Some (File b)" by auto
    show ?thesis
    proof (cases "embedPng env b")
      case (Inl e)
      then show ?thesis
        by (simp add: bindE_def liftE_def readFile_File [OF b])
    next
      case (Inr img)
      then show ?thesis using Cons.IH [OF rest]
        by (simp add: bindE_def liftE_def readFile_File [OF b] Let_def)
    qed
  qed
qed

lemma saved_pages_nonempty: "pdfDoc \<noteq> [] \<Longrightarrow> saved_pages pdfDoc = pdfDoc"
  by (cases pdfDoc) (simp_all add: saved_pages_def)

lemma generatePDF_empty:
  "generatePDF env [] outputPath w
     = bindE (liftE (serialize env [DEFAULT_PAGE])) (\<lambda>pdfBytes. writeFile outputPath pdfBytes) w"
  by (simp add: generatePDF_def bindE_def returnE_def save_def saved_pages_def)

text \<open>
  C3, as the code has it. The claim as stated fails for the empty list of paths: no page
  is added by the loop, \<^verbatim>\<open>save\<close> adds its default page, and the document written has one
  page, of the size A4 and with no image, where the claim says no page.
\<close>

theorem generatePDF_pages_counterexample:
  "generatePDF demo_env [] ''/out.pdf'' demo_rasters
     = bindE (liftE (serialize demo_env [DEFAULT_PAGE]))
         (\<lambda>pdfBytes. writeFile ''/out.pdf'' pdfBytes) demo_rasters
   \<and> length [DEFAULT_PAGE] \<noteq> length ([] :: path list)
   \<and> page_width DEFAULT_PAGE \<noteq> 1920
   \<and> drawn DEFAULT_PAGE = []
   \<and> map_of (entries (snd (generatePDF demo_env [] ''/out.pdf'' demo_rasters))) ''/out.pdf''
       = Some (File [1])"
proof -
  have a: "map_of (entries (snd (generatePDF demo_env [] ''/out.pdf'' demo_rasters))) ''/out.pdf''
       = Some (File [1])"
    by (simp add: generatePDF_empty bindE_def liftE_def writeFile_def store_def logE_def
        demo_env_def demo_rasters_def update_conv' DEFAULT_PAGE_def)
  show ?thesis using a by (simp add: generatePDF_empty DEFAULT_PAGE_def)
qed

text \<open>
  C3, amended. When the list of input paths is not empty and every input path is a
  readable image, \<open>generatePDF\<close> produces a document with one page per input path, in the
  order of the input; every page has the fixed size 1920 by 1080 points, whatever the
  pixel size of the raster, and holds the image of its path drawn at (0, 0) as wide and
  as high as the page. These pages are the ones serialised and written to the output
  path.
\<close>

theorem generatePDF_pages:
  assumes "pngPaths \<noteq> []"
    and "\<forall>p \<in> set pngPaths. \<exists>img. holds_image env w p img"
  shows "\<exists>pdfDoc. length pdfDoc = length pngPaths
           \<and> list_all2 (\<lambda>p page. \<exists>img. holds_image env w p img \<and> full_bleed img page)
                pngPaths pdfDoc
           \<and> generatePDF env pngPaths outputPath w
               = bindE (liftE (serialize env pdfDoc)) (\<lambda>pdfBytes. writeFile outputPath pdfBytes) w"
proof -
  from add_pages_readable [OF assms(2), of "[]"] obtain pdfDoc where
    d: "add_pages env pngPaths [] w = (Inr pdfDoc, w)"
      "list_all2 (\<lambda>p page. \<exists>img. holds_image env w p img \<and> full_bleed img page) pngPaths pdfDoc"
    by auto
  have len: "length pdfDoc = length pngPaths" using d(2) by (simp add: list_all2_lengthD)
  then have "pdfDoc \<noteq> []" using assms(1) by auto
  then have "save env pdfDoc = serialize env pdfDoc"
    by (simp add: save_def saved_pages_nonempty)
  then have "generatePDF env pngPaths outputPath w
      = bindE (liftE (serialize env pdfDoc)) (\<lambda>pdfBytes. writeFile outputPath pdfBytes) w"
    by (simp add: generatePDF_def bindE_def d(1))
  then show ?thesis using len d(2) by blast
qed

theorem generatePDF_pages_witness:
  "[''/a.png'', ''/b.png''] \<noteq> []
   \<and> (\<exists>img. holds_image demo_env demo_rasters ''/a.png'' img)
   \<and> (\<exists>img. holds_image demo_env demo_rasters ''/b.png'' img)
   \<and> (\<exists>pdfDoc. length pdfDoc = length [''/a.png'', ''/b.png'']
         \<and> list_all2 (\<lambda>p page. \<exists>img. holds_image demo_env demo_rasters p img \<and> full_bleed img page)
              [''/a.png'', ''/b.png''] pdfDoc
         \<and> generatePDF demo_env [''/a.png'', ''/b.png''] ''/out.pdf'' demo_rasters
             = bindE (liftE (serialize demo_env pdfDoc)) (\<lambda>pdfBytes. writeFile ''/out.pdf'' pdfBytes)
                 demo_rasters)"
proof -
  have ne: "[''/a.png'', ''/b.png''] \<noteq> []" by simp
  have a: "\<exists>img. holds_image demo_env demo_rasters ''/a.png'' img"
    by (simp add: holds_image_def demo_env_def demo_rasters_def)
  have b: "\<exists>img. holds_image demo_env demo_rasters ''/b.png'' img"
    by (simp add: holds_image_def demo_env_def demo_rasters_def)
  have h: "\<forall>p \<in> set [''/a.png'', ''/b.png'']. \<exists>img. holds_image demo_env demo_rasters p img"
    using a b by simp
  show ?thesis using a b generatePDF_pages [OF ne h] by blast
qed

text \<open>
  C5. When one of the input paths cannot be read, \<open>generatePDF\<close> throws and leaves the
  store as it was: nothing is written to the output path, no document of the pages
  before the failing input either.
\<close>

theorem generatePDF_unreadable:
  assumes "\<exists>p \<in> set pngPaths. \<forall>b. map_of (entries w) p \<noteq> Some (File b)"
  shows "\<exists>e. generatePDF env pngPaths outputPath w = (Inl e, w)"
proof -
  from add_pages_unreadable [OF assms, of env "[]"] obtain e where
    "fst (add_pages env pngPaths [] w) = Inl e" by blast
  then have "add_pages env pngPaths [] w = (Inl e, w)"
    using add_pages_state [of env pngPaths "[]" w] by (metis prod.collapse)
  then show ?thesis by (simp add: generatePDF_def bindE_def)
qed


theorem generatePDF_unreadable_witness:
  "(\<exists>p \<in> set [''/a.png'', ''/missing.png'']. \<forall>b. map_of (entries demo_rasters) p \<noteq> Some (File b))
   \<and> (\<exists>e. generatePDF demo_env [''/a.png'', ''/missing.png''] ''/out.pdf'' demo_rasters
            = (Inl e, demo_rasters))"
proof -
  have h: "\<exists>p \<in> set [''/a.png'', ''/missing.png'']. \<forall>b. map_of (entries demo_rasters) p \<noteq> Some (File b)"
    by (simp add: demo_rasters_def)
  show ?thesis using h generatePDF_unreadable [OF h] by blast
qed

section \<open>Keeping an invariant\<close>

lemma keepsD: "keeps I m \<Longrightarrow> I w \<Longrightarrow> m w = (r, w') \<Longrightarrow> I w'"
  by (auto simp: keeps_def)

lemma keeps_bindE:
  assumes "keeps I m" and "\<And>a. keeps I (f a)"
  shows "keeps I (bindE m f)"
  unfolding keeps_def
proof (intro allI impI)
  fix w assume w: "I w"
  obtain r w1 where m: "m w = (r, w1)" by (cases "m w")
  have w1: "I w1" using keepsD [OF assms(1) w m] .
  show "I (snd (bindE m f w))"
  proof (cases r)
    case (Inl e)
    then show ?thesis using m w1 by (simp add: bindE_def)
  next
    case (Inr a)
    obtain r2 w2 where f: "f a w1 = (r2, w2)" by (cases "f a w1")
    have "I w2" using keepsD [OF assms(2) w1 f] .
    then show ?thesis using m Inr f by (simp add: bindE_def)
  qed
qed

lemma keeps_catchE:
  assumes "keeps I m" and "\<And>e. keeps I (h e)"
  shows "keeps I (catchE m h)"
  unfolding keeps_def
proof (intro allI impI)
  fix w assume w: "I w"
  obtain r w1 where m: "m w = (r, w1)" by (cases "m w")
  have w1: "I w1" using keepsD [OF assms(1) w m] .
  show "I (snd (catchE m h w))"
  proof (cases r)
    case (Inr a)
    then show ?thesis using m w1 by (simp add: catchE_def)
  next
    case (Inl e)
    obtain r2 w2 where f: "h e w1 = (r2, w2)" by (cases "h e w1")
    have "I w2" using keepsD [OF assms(2) w1 f] .
    then show ?thesis using m Inl f by (simp add: catchE_def)
  qed
qed

lemma keeps_returnE: "keeps I (returnE a)"
  by (simp add: keeps_def returnE_def)

lemma keeps_liftE: "keeps I (liftE r)"
  by (simp add: keeps_def liftE_def)

lemma keeps_readFile: "keeps I (readFile p)"
  by (auto simp: keeps_def readFile_def split: option.splits node.splits)

lemma keeps_if: "keeps I m \<Longrightarrow> keeps I n \<Longrightarrow> keeps I (if c then m else n)"
  by simp

lemma keeps_logE: "stable_log I ev \<Longrightarrow> keeps I (logE ev)"
  by (simp add: keeps_def stable_log_def logE_def)

lemma keeps_store: "stable_store I p \<Longrightarrow> keeps I (store p b)"
  by (auto simp: keeps_def stable_store_def store_def split: option.splits node.splits)

lemma keeps_mkdir: "stable_mkdir I p \<Longrightarrow> keeps I (mkdir p)"
  by (auto simp: keeps_def stable_mkdir_def mkdir_def split: option.splits node.splits)

lemma keeps_unlink: "stable_unlink I p \<Longrightarrow> keeps I (unlink p)"
  by (auto simp: keeps_def stable_unlink_def unlink_def split: option.splits node.splits)

lemma keeps_readdir: "keeps I (readdir d)"
  by (auto simp: keeps_def readdir_def split: option.splits node.splits)

lemma keeps_writeFile: "stable_store I p \<Longrightarrow> stable_log I (Write p) \<Longrightarrow> keeps I (writeFile p b)"
  unfolding writeFile_def by (intro keeps_bindE keeps_store keeps_logE)

lemma keeps_fontExists: "keeps I (fontExists p)"
  unfolding fontExists_def by (intro keeps_catchE keeps_bindE keeps_readFile keeps_returnE)

lemma python_script_cases:
  "python_script env i p wt w = (r, w') \<Longrightarrow>
     w' = w \<or> (\<exists>b. map_of (entries w) p \<noteq> Some Dir \<and> w' = w\<lparr>entries := AList.update p (File b) (entries w)\<rparr>)"
  by (auto simp: python_script_def store_def split: prod.splits sum.splits option.splits node.splits)

lemma keeps_createSlideFont:
  assumes "stable_store I p" "stable_log I (Spawn i p wt)"
  shows "keeps I (createSlideFont env i p wt)"
  unfolding createSlideFont_def
proof (rule keeps_bindE [OF keeps_logE [OF assms(2)]])
  fix u :: unit
  show "keeps I (\<lambda>w. case python_script env i p wt w of
          (Inl stderr, w') \<Rightarrow> (Inl (FontFailure wt stderr), w')
        | (Inr _, w') \<Rightarrow> (Inr (), w'))"
    unfolding keeps_def
  proof (intro allI impI)
    fix w assume w: "I w"
    obtain r w' where p: "python_script env i p wt w = (r, w')" by (cases "python_script env i p wt w")
    from python_script_cases [OF p] have "I w'" using w assms(1) by (auto simp: stable_store_def)
    then show "I (snd (case python_script env i p wt w of
          (Inl stderr, w') \<Rightarrow> (Inl (FontFailure wt stderr), w')
        | (Inr _, w') \<Rightarrow> (Inr (), w')))"
      using p by (cases r) simp_all
  qed
qed

lemma keeps_loadFonts:
  assumes "stable_mkdir I (CACHE_DIR env)"
    and "\<And>nm. stable_store I (resolve (CACHE_DIR env) nm)"
    and "\<And>i p wt. stable_log I (Spawn i p wt)"
  shows "keeps I (loadFonts env src)"
  unfolding loadFonts_def Let_def
  by (intro keeps_bindE keeps_mkdir keeps_fontExists keeps_if keeps_createSlideFont
      keeps_returnE keeps_readFile assms)

lemma keeps_loadLogoDataUrl: "keeps I (loadLogoDataUrl env)"
  unfolding loadLogoDataUrl_def by (intro keeps_bindE keeps_readFile keeps_returnE)

lemma keeps_loadLockedUpLogoDataUrl: "keeps I (loadLockedUpLogoDataUrl env)"
  unfolding loadLockedUpLogoDataUrl_def by (intro keeps_bindE keeps_readFile keeps_returnE)

lemma keeps_generate_slides:
  assumes "\<And>nm. stable_store I (resolve (SLIDES_DIR env) (nm @ ''.png''))"
    and "\<And>nm. stable_log I (Write (resolve (SLIDES_DIR env) (nm @ ''.png'')))"
    and "\<And>nm. stable_log I (Generate nm)"
  shows "keeps I (generate_slides env sl acc)"
proof (induction sl arbitrary: acc)
  case Nil
  show ?case by (simp add: keeps_returnE)
next
  case (Cons s sl)
  show ?case
    unfolding generate_slides.simps Let_def
    by (intro keeps_bindE keeps_logE keeps_liftE keeps_writeFile assms Cons.IH)
qed

lemma keeps_add_pages: "keeps I (add_pages env ps doc)"
proof (induction ps arbitrary: doc)
  case Nil
  show ?case by (simp add: keeps_returnE)
next
  case (Cons p ps)
  show ?case
    unfolding add_pages.simps Let_def
    by (intro keeps_bindE keeps_readFile keeps_liftE Cons.IH)
qed

lemma keeps_generatePDF:
  assumes "stable_store I out" "stable_log I (Write out)"
  shows "keeps I (generatePDF env ps out)"
  unfolding generatePDF_def
  by (intro keeps_bindE keeps_add_pages keeps_liftE keeps_writeFile assms)

lemma keeps_unlink_pngs:
  assumes "\<And>nm. endsWith nm ''.png'' \<Longrightarrow> stable_unlink I (resolve d nm)"
  shows "keeps I (unlink_pngs d files)"
proof (induction files)
  case Nil
  show ?case by (simp add: keeps_returnE)
next
  case (Cons f files)
  show ?case
    unfolding unlink_pngs.simps
    by (intro keeps_bindE Cons.IH) (simp add: keeps_unlink assms keeps_returnE)
qed

lemma keeps_cleanupSlides:
  assumes "\<And>nm. endsWith nm ''.png'' \<Longrightarrow> stable_unlink I (resolve d nm)"
  shows "keeps I (cleanupSlides d)"
  unfolding cleanupSlides_def
  by (intro keeps_catchE keeps_bindE keeps_readdir keeps_unlink_pngs keeps_returnE assms)

lemma cleanupSlides_returns: "fst (cleanupSlides d w) = Inr ()"
  by (simp add: cleanupSlides_def catchE_def returnE_def split: prod.splits sum.splits)

section \<open>Properties of the font cache\<close>

lemma yieldsD:
  "yields I m Q \<Longrightarrow> I w \<Longrightarrow> m w = (r, w') \<Longrightarrow> I w' \<and> (\<forall>a. r = Inr a \<longrightarrow> Q a)"
  by (auto simp: yields_def)

lemma yields_bindE:
  assumes "keeps I m" and "\<And>a. yields I (f a) Q"
  shows "yields I (bindE m f) Q"
  unfolding yields_def
proof (intro allI impI)
  fix w assume w: "I w"
  obtain r w1 where m: "m w = (r, w1)" by (cases "m w")
  have w1: "I w1" using keepsD [OF assms(1) w m] .
  show "I (snd (bindE m f w)) \<and> (\<forall>a. fst (bindE m f w) = Inr a \<longrightarrow> Q a)"
  proof (cases r)
    case (Inl e)
    then show ?thesis using m w1 by (simp add: bindE_def)
  next
    case (Inr a)
    obtain r2 w2 where f: "f a w1 = (r2, w2)" by (cases "f a w1")
    from yieldsD [OF assms(2) w1 f] show ?thesis using m Inr f by (simp add: bindE_def)
  qed
qed

lemma yields_returnE: "Q a \<Longrightarrow> yields I (returnE a) Q"
  by (simp add: yields_def returnE_def)

lemma yields_read:
  assumes "\<And>w. I w \<Longrightarrow> map_of (entries w) p = Some (File b)" and "yields I (f b) Q"
  shows "yields I (bindE (readFile p) f) Q"
  unfolding yields_def
proof (intro allI impI)
  fix w assume w: "I w"
  have "bindE (readFile p) f w = f b w"
    using assms(1) [OF w] by (simp add: bindE_def readFile_def)
  then show "I (snd (bindE (readFile p) f w)) \<and> (\<forall>a. fst (bindE (readFile p) f w) = Inr a \<longrightarrow> Q a)"
    using assms(2) w by (simp add: yields_def)
qed

lemma yields_cached:
  assumes "\<And>w. I w \<Longrightarrow> map_of (entries w) p = Some (File b)" and "yields I (f ()) Q"
  shows "yields I (bindE (fontExists p) (\<lambda>h. bindE (if \<not> h then c else returnE ()) f)) Q"
  unfolding yields_def
proof (intro allI impI)
  fix w assume w: "I w"
  let ?m = "bindE (fontExists p) (\<lambda>h. bindE (if \<not> h then c else returnE ()) f)"
  have "?m w = f () w"
    using assms(1) [OF w] by (simp add: bindE_def fontExists_def catchE_def readFile_def returnE_def)
  then show "I (snd (?m w)) \<and> (\<forall>a. fst (?m w) = Inr a \<longrightarrow> Q a)"
    using assms(2) w by (simp add: yields_def)
qed

lemma cached_file: "cached p b wt evs0 w \<Longrightarrow> map_of (entries w) p = Some (File b)"
  by (simp add: cached_def)

lemma cached_mkdir: "stable_mkdir (cached p b wt evs0) d"
  by (auto simp: stable_mkdir_def cached_def update_conv')

lemma cached_store: "q \<noteq> p \<Longrightarrow> stable_store (cached p b wt evs0) q"
  by (auto simp: stable_store_def cached_def update_conv')

lemma cached_log: "wt' \<noteq> wt \<Longrightarrow> stable_log (cached p b wt evs0) (Spawn i q wt')"
  by (auto simp: stable_log_def cached_def)

lemma cache_paths_differ:
  "resolve d ''Cupertino-OG-400.ttf'' \<noteq> resolve d ''Cupertino-OG-500.ttf''"
  "resolve d ''Cupertino-OG-400.ttf'' \<noteq> resolve d ''Cupertino-OG-700.ttf''"
  "resolve d ''Cupertino-OG-500.ttf'' \<noteq> resolve d ''Cupertino-OG-700.ttf''"
  "resolve d ''Cupertino-OG-500.ttf'' \<noteq> resolve d ''Cupertino-OG-400.ttf''"
  "resolve d ''Cupertino-OG-700.ttf'' \<noteq> resolve d ''Cupertino-OG-400.ttf''"
  "resolve d ''Cupertino-OG-700.ttf'' \<noteq> resolve d ''Cupertino-OG-500.ttf''"
  by (simp_all add: resolve_def)

lemmas font_weights = FONT_WEIGHTS_regular_def FONT_WEIGHTS_medium_def FONT_WEIGHTS_bold_def

lemmas other_font =
  yields_bindE [OF keeps_fontExists]
  yields_bindE [OF keeps_if [OF keeps_createSlideFont keeps_returnE]]

lemma loadFonts_regular_cached:
  "yields (cached (resolve (CACHE_DIR env) ''Cupertino-OG-400.ttf'') b 400 evs0)
     (loadFonts env src) (\<lambda>fonts. regular fonts = b)"
  unfolding loadFonts_def Let_def
  apply (rule yields_bindE [OF keeps_mkdir [OF cached_mkdir]])
  apply (rule yields_cached [OF cached_file], assumption)
  apply (rule other_font)+
    apply (simp_all add: cached_store cached_log cache_paths_differ font_weights)[2]
  apply (rule other_font)+
    apply (simp_all add: cached_store cached_log cache_paths_differ font_weights)[2]
  apply (rule yields_read [OF cached_file], assumption)
  apply (rule yields_bindE [OF keeps_readFile])+
  apply (rule yields_returnE)
  apply simp
  done

lemma loadFonts_medium_cached:
  "yields (cached (resolve (CACHE_DIR env) ''Cupertino-OG-500.ttf'') b 500 evs0)
     (loadFonts env src) (\<lambda>fonts. medium fonts = b)"
  unfolding loadFonts_def Let_def
  apply (rule yields_bindE [OF keeps_mkdir [OF cached_mkdir]])
  apply (rule other_font)+
    apply (simp_all add: cached_store cached_log cache_paths_differ font_weights)[2]
  apply (rule yields_cached [OF cached_file], assumption)
  apply (rule other_font)+
    apply (simp_all add: cached_store cached_log cache_paths_differ font_weights)[2]
  apply (rule yields_bindE [OF keeps_readFile])
  apply (rule yields_read [OF cached_file], assumption)
  apply (rule yields_bindE [OF keeps_readFile])
  apply (rule yields_returnE)
  apply simp
  done

lemma loadFonts_bold_cached:
  "yields (cached (resolve (CACHE_DIR env) ''Cupertino-OG-700.ttf'') b 700 evs0)
     (loadFonts env src) (\<lambda>fonts. bold fonts = b)"
  unfolding loadFonts_def Let_def
  apply (rule yields_bindE [OF keeps_mkdir [OF cached_mkdir]])
  apply (rule other_font)+
    apply (simp_all add: cached_store cached_log cache_paths_differ font_weights)[2]
  apply (rule other_font)+
    apply (simp_all add: cached_store cached_log cache_paths_differ font_weights)[2]
  apply (rule yields_cached [OF cached_file], assumption)
  apply (rule yields_bindE [OF keeps_readFile])
  apply (rule yields_bindE [OF keeps_readFile])
  apply (rule yields_read [OF cached_file], assumption)
  apply (rule yields_returnE)
  apply simp
  done

lemma cached_start: "map_of (entries w) p = Some (File b) \<Longrightarrow> cached p b wt (events w) w"
  by (simp add: cached_def)

lemma cached_end:
  assumes "map_of (entries w) p = Some (File b)"
    and "yields (cached p b wt (events w)) m Q" and "m w = (r, w')"
  shows "(\<exists>evs. events w' = events w @ evs \<and> (\<forall>i q. Spawn i q wt \<notin> set evs))
         \<and> (\<forall>a. r = Inr a \<longrightarrow> Q a)"
  using yieldsD [OF assms(2) cached_start [OF assms(1)] assms(3)] by (simp add: cached_def)

text \<open>
  C7. For each of the weights 400, 500 and 700: when the cached derivative of the weight
  is a file at the start of \<open>loadFonts\<close>, no process is spawned for that weight, whether
  \<open>loadFonts\<close> returns or throws, and the font set it returns holds the cached bytes for
  that weight.
\<close>

theorem loadFonts_cached:
  assumes "loadFonts env fontSourcePath w = (r, w')"
  shows "(\<forall>b. map_of (entries w) (resolve (CACHE_DIR env) ''Cupertino-OG-400.ttf'') = Some (File b)
            \<longrightarrow> (\<exists>evs. events w' = events w @ evs \<and> (\<forall>i q. Spawn i q 400 \<notin> set evs))
                \<and> (\<forall>fonts. r = Inr fonts \<longrightarrow> regular fonts = b))
       \<and> (\<forall>b. map_of (entries w) (resolve (CACHE_DIR env) ''Cupertino-OG-500.ttf'') = Some (File b)
            \<longrightarrow> (\<exists>evs. events w' = events w @ evs \<and> (\<forall>i q. Spawn i q 500 \<notin> set evs))
                \<and> (\<forall>fonts. r = Inr fonts \<longrightarrow> medium fonts = b))
       \<and> (\<forall>b. map_of (entries w) (resolve (CACHE_DIR env) ''Cupertino-OG-700.ttf'') = Some (File b)
            \<longrightarrow> (\<exists>evs. events w' = events w @ evs \<and> (\<forall>i q. Spawn i q 700 \<notin> set evs))
                \<and> (\<forall>fonts. r = Inr fonts \<longrightarrow> bold fonts = b))"
  using cached_end [OF _ loadFonts_regular_cached assms]
    cached_end [OF _ loadFonts_medium_cached assms]
    cached_end [OF _ loadFonts_bold_cached assms]
  by blast

lemma demo_loadFonts:
  "fst (loadFonts demo_env ''/f'' demo_cached)
     = Inr \<lparr>regular = [4], medium = [500, 1], bold = [700, 1]\<rparr>"
  by code_simp

theorem loadFonts_cached_witness:
  "map_of (entries demo_cached) (resolve (CACHE_DIR demo_env) ''Cupertino-OG-400.ttf'')
     = Some (File [4])
   \<and> (\<exists>evs. events (snd (loadFonts demo_env ''/f'' demo_cached)) = events demo_cached @ evs
          \<and> (\<forall>i q. Spawn i q 400 \<notin> set evs))
   \<and> (\<exists>fonts. fst (loadFonts demo_env ''/f'' demo_cached) = Inr fonts \<and> regular fonts = [4])"
proof -
  have h: "map_of (entries demo_cached) (resolve (CACHE_DIR demo_env) ''Cupertino-OG-400.ttf'')
     = Some (File [4])"
    by (simp add: demo_cached_def demo_env_def CACHE_DIR_def resolve_def)
  have run: "loadFonts demo_env ''/f'' demo_cached
     = (fst (loadFonts demo_env ''/f'' demo_cached), snd (loadFonts demo_env ''/f'' demo_cached))"
    by simp
  show ?thesis using h loadFonts_cached [OF run] demo_loadFonts by blast
qed

section \<open>Properties of a run\<close>

lemma mkdir_cases:
  assumes "mkdir p w = (r, w')"
  shows "(w' = w) \<or> (r = Inr () \<and> map_of (entries w) p = None
           \<and> w' = w\<lparr>entries := AList.update p Dir (entries w)\<rparr>)"
  using assms by (auto simp: mkdir_def split: option.splits node.splits)

lemma mkdir_effect:
  assumes "mkdir p w = (r, w')"
  shows "events w' = events w"
    and "q \<noteq> p \<Longrightarrow> map_of (entries w') q = map_of (entries w) q"
    and "map_of (entries w) q = Some n \<Longrightarrow> map_of (entries w') q = Some n"
    and "map_of (entries w') q = Some (File b) \<Longrightarrow> map_of (entries w) q = Some (File b)"
  using mkdir_cases [OF assms] by (auto simp: update_conv' split: if_splits)

lemma output_paths_differ:
  "resolve (OUTPUT_DIR env) ''presentation.pdf'' \<noteq> SLIDES_DIR env"
  "resolve (OUTPUT_DIR env) ''presentation.pdf'' \<noteq> resolve (SLIDES_DIR env) nm"
  "CACHE_DIR env \<noteq> resolve (SLIDES_DIR env) nm"
  "SLIDES_DIR env \<noteq> resolve (SLIDES_DIR env) nm"
  by (simp_all add: resolve_def SLIDES_DIR_def OUTPUT_DIR_def CACHE_DIR_def)

text \<open>
  C6. When the font source (the given path, or the default one) is not a readable file,
  \<open>generatePresentation\<close> returns \<open>False\<close> with no event of the run: no process spawned
  for a font, no slide generated, nothing written. The output document is as it was:
  not created, not overwritten; only the slide directory may have been created.
\<close>

theorem generatePresentation_font_unreadable:
  assumes src: "fontSourcePath =
      (case fontPath of None \<Rightarrow> DEFAULT_FONT env
       | Some p \<Rightarrow> if p = [] then DEFAULT_FONT env else p)"
    and unreadable: "\<forall>b. map_of (entries w) fontSourcePath \<noteq> Some (File b)"
  shows "\<exists>w'. generatePresentation env verbose fontPath w = (False, w')
           \<and> events w' = events w
           \<and> map_of (entries w') (resolve (OUTPUT_DIR env) ''presentation.pdf'')
               = map_of (entries w) (resolve (OUTPUT_DIR env) ''presentation.pdf'')
           \<and> (\<forall>p. p \<noteq> SLIDES_DIR env \<longrightarrow> map_of (entries w') p = map_of (entries w) p)"
proof -
  obtain r w1 where mk: "mkdir (SLIDES_DIR env) w = (r, w1)" by (cases "mkdir (SLIDES_DIR env) w")
  note eff = mkdir_effect [OF mk]
  have frame: "events w1 = events w
      \<and> map_of (entries w1) (resolve (OUTPUT_DIR env) ''presentation.pdf'')
          = map_of (entries w) (resolve (OUTPUT_DIR env) ''presentation.pdf'')
      \<and> (\<forall>p. p \<noteq> SLIDES_DIR env \<longrightarrow> map_of (entries w1) p = map_of (entries w) p)"
    using eff(1) eff(2) output_paths_differ(1) by simp
  have "generatePresentation env verbose fontPath w = (False, w1)"
  proof (cases r)
    case (Inl e)
    then show ?thesis using mk by (simp add: generatePresentation_def bindE_def)
  next
    case (Inr u)
    have "\<forall>b. map_of (entries w1) fontSourcePath \<noteq> Some (File b)"
      using unreadable eff(4) by blast
    then obtain e where rd: "readFile fontSourcePath w1 = (Inl e, w1)"
      using readFile_failure by blast
    show ?thesis
      using mk Inr rd src [symmetric]
      by (simp add: generatePresentation_def bindE_def catchE_def returnE_def Let_def)
  qed
  then show ?thesis using frame by blast
qed

theorem generatePresentation_font_unreadable_witness:
  "map_of (entries demo_world) ''/x'' = None
   \<and> (\<exists>w'. generatePresentation demo_env False (Some ''/x'') demo_world = (False, w')
          \<and> events w' = events demo_world
          \<and> map_of (entries w') (resolve (OUTPUT_DIR demo_env) ''presentation.pdf'')
              = map_of (entries demo_world) (resolve (OUTPUT_DIR demo_env) ''presentation.pdf'')
          \<and> (\<forall>p. p \<noteq> SLIDES_DIR demo_env \<longrightarrow> map_of (entries w') p = map_of (entries demo_world) p))"
proof -
  have h: "map_of (entries demo_world) ''/x'' = None" by (simp add: demo_world_def)
  have src: "''/x'' = (case Some ''/x'' of None \<Rightarrow> DEFAULT_FONT demo_env
       | Some p \<Rightarrow> if p = [] then DEFAULT_FONT demo_env else p)"
    by simp
  have un: "\<forall>b. map_of (entries demo_world) ''/x'' \<noteq> Some (File b)" using h by simp
  show ?thesis using h generatePresentation_font_unreadable [OF src un] by blast
qed

lemma written_append: "written (xs @ ys) = written xs @ written ys"
  by (induction xs rule: written.induct) simp_all

lemma logE_effect: "logE ev w = (r, w') \<Longrightarrow> r = Inr () \<and> w' = w\<lparr>events := events w @ [ev]\<rparr>"
  by (auto simp: logE_def)

lemma store_success:
  "store p b w = (Inr u, w') \<Longrightarrow>
     map_of (entries w) p \<noteq> Some Dir \<and> w' = w\<lparr>entries := AList.update p (File b) (entries w)\<rparr>"
  by (auto simp: store_def split: option.splits node.splits)

lemma writeFile_success:
  assumes "writeFile p b w = (Inr u, w')"
  shows "map_of (entries w) p \<noteq> Some Dir"
    and "w' = w\<lparr>entries := AList.update p (File b) (entries w), events := events w @ [Write p]\<rparr>"
proof -
  from assms obtain u1 w1 where s: "store p b w = (Inr u1, w1)" and l: "logE (Write p) w1 = (Inr u, w')"
    unfolding writeFile_def by (rule bindE_success)
  from store_success [OF s] logE_effect [OF l]
  show "map_of (entries w) p \<noteq> Some Dir"
    and "w' = w\<lparr>entries := AList.update p (File b) (entries w), events := events w @ [Write p]\<rparr>"
    by simp_all
qed

lemma writeFile_failure: "writeFile p b w = (Inl e, w') \<Longrightarrow> w' = w"
  by (auto simp: writeFile_def bindE_def store_def logE_def split: option.splits node.splits)

lemma liftE_success: "liftE r w = (Inr a, w') \<Longrightarrow> r = Inr a \<and> w' = w"
  by (simp add: liftE_def)

lemma slide_path_inject:
  "resolve d (nm @ ''.png'') = resolve d (nm' @ ''.png'') \<longleftrightarrow> nm = nm'"
  by (simp add: resolve_def)

lemma file_at_store: "q \<noteq> p \<Longrightarrow> stable_store (\<lambda>w. map_of (entries w) p = Some n) q"
  by (simp add: stable_store_def update_conv')

lemma file_at_log: "stable_log (\<lambda>w. map_of (entries w) p = Some n) ev"
  by (simp add: stable_log_def)

lemma keeps_generate_slides_names:
  assumes "\<And>nm. nm \<in> fst ` set sl \<Longrightarrow> stable_store I (resolve (SLIDES_DIR env) (nm @ ''.png''))"
    and "\<And>nm. stable_log I (Write (resolve (SLIDES_DIR env) (nm @ ''.png'')))"
    and "\<And>nm. stable_log I (Generate nm)"
  shows "keeps I (generate_slides env sl acc)"
  using assms(1)
proof (induction sl arbitrary: acc)
  case Nil
  show ?case by (simp add: keeps_returnE)
next
  case (Cons s sl)
  have st: "stable_store I (resolve (SLIDES_DIR env) (fst s @ ''.png''))"
    by (rule Cons.prems) simp
  have ih: "\<And>acc. keeps I (generate_slides env sl acc)"
    by (rule Cons.IH) (simp add: Cons.prems)
  show ?case
    unfolding generate_slides.simps Let_def
    by (intro keeps_bindE keeps_logE keeps_liftE keeps_writeFile assms(2,3) st ih)
qed

lemma generate_slides_success:
  assumes "generate_slides env sl acc w = (Inr paths, w')" and "distinct (map fst sl)"
  shows "paths = acc @ map (\<lambda>s. resolve (SLIDES_DIR env) (fst s @ ''.png'')) sl
       \<and> events w' = events w
           @ concat (map (\<lambda>s. [Generate (fst s), Write (resolve (SLIDES_DIR env) (fst s @ ''.png''))]) sl)
       \<and> list_all2 (\<lambda>s p. \<exists>svg png. snd s = Inr svg \<and> svgToPng env svg = Inr png
                       \<and> map_of (entries w') p = Some (File png))
           sl (map (\<lambda>s. resolve (SLIDES_DIR env) (fst s @ ''.png'')) sl)"
  using assms
proof (induction sl arbitrary: acc w)
  case Nil
  then show ?case by (simp add: returnE_def)
next
  case (Cons s sl)
  let ?p = "resolve (SLIDES_DIR env) (fst s @ ''.png'')"
  from Cons.prems(1) obtain u1 w1 where l: "logE (Generate (fst s)) w = (Inr u1, w1)"
    and r1: "bindE (liftE (snd s)) (\<lambda>svg. bindE (liftE (svgToPng env svg)) (\<lambda>png.
       let outputPath = resolve (SLIDES_DIR env) (fst s @ ''.png'') in
       bindE (writeFile outputPath png) (\<lambda>_. generate_slides env sl (acc @ [outputPath])))) w1
       = (Inr paths, w')"
    unfolding generate_slides.simps by (rule bindE_success)
  from r1 obtain svg w2 where g: "liftE (snd s) w1 = (Inr svg, w2)"
    and r2: "bindE (liftE (svgToPng env svg)) (\<lambda>png.
       let outputPath = resolve (SLIDES_DIR env) (fst s @ ''.png'') in
       bindE (writeFile outputPath png) (\<lambda>_. generate_slides env sl (acc @ [outputPath]))) w2
       = (Inr paths, w')"
    by (rule bindE_success)
  from r2 obtain png w3 where c: "liftE (svgToPng env svg) w2 = (Inr png, w3)"
    and r3: "bindE (writeFile ?p png) (\<lambda>_. generate_slides env sl (acc @ [?p])) w3 = (Inr paths, w')"
    unfolding Let_def by (rule bindE_success)
  from r3 obtain u4 w4 where wr: "writeFile ?p png w3 = (Inr u4, w4)"
    and r4: "generate_slides env sl (acc @ [?p]) w4 = (Inr paths, w')"
    by (rule bindE_success)
  have w1: "w1 = w\<lparr>events := events w @ [Generate (fst s)]\<rparr>" using logE_effect [OF l] by simp
  have w2: "w2 = w1" "snd s = Inr svg" using liftE_success [OF g] by simp_all
  have w3: "w3 = w2" "svgToPng env svg = Inr png" using liftE_success [OF c] by simp_all
  note w4 = writeFile_success(2) [OF wr]
  have d: "distinct (map fst sl)" and notin: "fst s \<notin> fst ` set sl" using Cons.prems(2) by auto
  note ih = Cons.IH [OF r4 d]
  have file4: "map_of (entries w4) ?p = Some (File png)" by (simp add: w4 update_conv')
  have "keeps (\<lambda>w. map_of (entries w) ?p = Some (File png)) (generate_slides env sl (acc @ [?p]))"
  proof (rule keeps_generate_slides_names)
    fix nm assume "nm \<in> fst ` set sl"
    then have "nm \<noteq> fst s" using notin by blast
    then show "stable_store (\<lambda>w. map_of (entries w) ?p = Some (File png))
        (resolve (SLIDES_DIR env) (nm @ ''.png''))"
      by (intro file_at_store) (simp add: slide_path_inject)
  qed (rule file_at_log)+
  from keepsD [OF this file4 r4] have file': "map_of (entries w') ?p = Some (File png)" .
  have ev: "events w4 = events w @ [Generate (fst s), Write ?p]"
    by (simp add: w4 w3 w2 w1)
  show ?case using ih ev file' w2(2) w3(2) by simp
qed

lemma add_pages_success:
  assumes "add_pages env ps doc w = (Inr doc', w')"
  shows "\<exists>pages. doc' = doc @ pages
           \<and> list_all2 (\<lambda>p page. \<exists>img. holds_image env w p img \<and> full_bleed img page) ps pages"
  using assms
proof (induction ps arbitrary: doc)
  case Nil
  then show ?case by (simp add: returnE_def)
next
  case (Cons p ps)
  from Cons.prems obtain b w1 where rd: "readFile p w = (Inr b, w1)"
    and r1: "bindE (liftE (embedPng env b)) (\<lambda>pngImage.
     let pageWidth = 1920; pageHeight = 1080;
         page = \<lparr>page_width = pageWidth, page_height = pageHeight,
                 drawn = [\<lparr>drawn_image = pngImage, draw_x = 0, draw_y = 0,
                           draw_width = pageWidth, draw_height = pageHeight\<rparr>]\<rparr>
     in add_pages env ps (doc @ [page])) w1 = (Inr doc', w')"
    unfolding add_pages.simps by (rule bindE_success)
  from r1 obtain img w2 where em: "liftE (embedPng env b) w1 = (Inr img, w2)"
    and r2: "add_pages env ps (doc @ [\<lparr>page_width = 1920, page_height = 1080,
                 drawn = [\<lparr>drawn_image = img, draw_x = 0, draw_y = 0,
                           draw_width = 1920, draw_height = 1080\<rparr>]\<rparr>]) w2 = (Inr doc', w')"
    unfolding Let_def by (rule bindE_success)
  let ?page = "\<lparr>page_width = 1920, page_height = 1080,
                 drawn = [\<lparr>drawn_image = img, draw_x = 0, draw_y = 0,
                           draw_width = 1920, draw_height = 1080\<rparr>]\<rparr>"
  have w1: "w1 = w" "map_of (entries w) p = Some (File b)" using readFile_success [OF rd] by simp_all
  have w2: "w2 = w1" "embedPng env b = Inr img" using liftE_success [OF em] by simp_all
  from Cons.IH [of "doc @ [?page]"] r2 w1 w2 obtain pages where
    pages: "doc' = (doc @ [?page]) @ pages"
      "list_all2 (\<lambda>p page. \<exists>img. holds_image env w p img \<and> full_bleed img page) ps pages"
    by auto
  have "holds_image env w p img" using w1(2) w2(2) by (simp add: holds_image_def)
  moreover have "full_bleed img ?page" by (simp add: full_bleed_def)
  ultimately have "list_all2 (\<lambda>p page. \<exists>img. holds_image env w p img \<and> full_bleed img page)
      (p # ps) (?page # pages)"
    using pages(2) by auto
  then show ?case using pages(1) by auto
qed

lemma generatePDF_success:
  assumes "generatePDF env ps out w = (Inr u, w')"
  shows "\<exists>pdfDoc pdfBytes.
      list_all2 (\<lambda>p page. \<exists>img. holds_image env w p img \<and> full_bleed img page) ps pdfDoc
    \<and> save env pdfDoc = Inr pdfBytes
    \<and> w' = w\<lparr>entries := AList.update out (File pdfBytes) (entries w),
              events := events w @ [Write out]\<rparr>"
proof -
  from assms obtain pdfDoc w1 where a: "add_pages env ps [] w = (Inr pdfDoc, w1)"
    and r1: "bindE (liftE (save env pdfDoc)) (\<lambda>pdfBytes. writeFile out pdfBytes) w1 = (Inr u, w')"
    unfolding generatePDF_def by (rule bindE_success)
  from r1 obtain pdfBytes w2 where s: "liftE (save env pdfDoc) w1 = (Inr pdfBytes, w2)"
    and wr: "writeFile out pdfBytes w2 = (Inr u, w')"
    by (rule bindE_success)
  have w1: "w1 = w" using add_pages_state [of env ps "[]" w] a by simp
  have w2: "w2 = w1" "save env pdfDoc = Inr pdfBytes" using liftE_success [OF s] by simp_all
  from add_pages_success [OF a] have
    "list_all2 (\<lambda>p page. \<exists>img. holds_image env w p img \<and> full_bleed img page) ps pdfDoc" by simp
  then show ?thesis using w2(2) writeFile_success(2) [OF wr] w1 w2(1) by blast
qed

lemma generatePDF_failure: "generatePDF env ps out w = (Inl e, w') \<Longrightarrow> w' = w"
proof -
  assume a: "generatePDF env ps out w = (Inl e, w')"
  obtain r w1 where ap: "add_pages env ps [] w = (r, w1)" by (cases "add_pages env ps [] w")
  then have w1: "w1 = w" using add_pages_state [of env ps "[]" w] by simp
  show ?thesis
  proof (cases r)
    case (Inl e1)
    then show ?thesis using a ap w1 by (simp add: generatePDF_def bindE_def)
  next
    case (Inr doc)
    show ?thesis
    proof (cases "save env doc")
      case (Inl e2)
      then show ?thesis using a ap w1 Inr by (simp add: generatePDF_def bindE_def liftE_def)
    next
      case (Inr bs)
      then have "writeFile out bs w = (Inl e, w')"
        using a ap w1 \<open>r = Inr doc\<close> by (simp add: generatePDF_def bindE_def liftE_def)
      then show ?thesis by (rule writeFile_failure)
    qed
  qed
qed
lemma loadLogoDataUrl_success:
  "loadLogoDataUrl env w = (Inr a, w') \<Longrightarrow> w' = w"
  by (auto simp: loadLogoDataUrl_def bindE_def returnE_def readFile_def
      split: option.splits node.splits)

lemma loadLockedUpLogoDataUrl_success:
  "loadLockedUpLogoDataUrl env w = (Inr a, w') \<Longrightarrow> w' = w"
  by (auto simp: loadLockedUpLogoDataUrl_def bindE_def returnE_def readFile_def
      split: option.splits node.splits)

lemma font_check_success:
  assumes "catchE (bindE (readFile p) (\<lambda>_. returnE True)) (\<lambda>_. returnE False) w = (Inr found, w')"
  shows "w' = w"
  using assms
  by (auto simp: catchE_def bindE_def returnE_def readFile_def split: option.splits node.splits)

lemma generatePresentation_success:
  assumes "generatePresentation env verbose fontPath w = (True, w')"
  obtains src w1 fonts w3 logoDataUrl lockedUpLogoDataUrl pngPaths w6 w7 where
    "mkdir (SLIDES_DIR env) w = (Inr (), w1)"
    "loadFonts env src w1 = (Inr fonts, w3)"
    "generate_slides env (slides env fonts logoDataUrl lockedUpLogoDataUrl) [] w3 = (Inr pngPaths, w6)"
    "generatePDF env pngPaths (resolve (OUTPUT_DIR env) ''presentation.pdf'') w6 = (Inr (), w7)"
    "cleanupSlides (SLIDES_DIR env) w7 = (Inr (), w')"
proof -
  define src where "src = (case fontPath of None \<Rightarrow> DEFAULT_FONT env
       | Some p \<Rightarrow> if p = [] then DEFAULT_FONT env else p)"
  define main where "main =
          bindE (loadFonts env src) (\<lambda>fonts.
          bindE (loadLogoDataUrl env) (\<lambda>logoDataUrl.
          bindE (loadLockedUpLogoDataUrl env) (\<lambda>lockedUpLogoDataUrl.
          bindE (generate_slides env (slides env fonts logoDataUrl lockedUpLogoDataUrl) [])
            (\<lambda>pngPaths.
          bindE (generatePDF env pngPaths (resolve (OUTPUT_DIR env) ''presentation.pdf'')) (\<lambda>_.
          bindE (cleanupSlides (SLIDES_DIR env)) (\<lambda>_.
          returnE True))))))"
  define body where "body =
        bindE (mkdir (SLIDES_DIR env)) (\<lambda>_.
        bindE (catchE (bindE (readFile src) (\<lambda>_. returnE True)) (\<lambda>_. returnE False)) (\<lambda>found.
        if \<not> found then returnE False else main))"
  have gp: "generatePresentation env verbose fontPath w =
      (case body w of (Inl e, w') \<Rightarrow> (False, w') | (Inr ok, w') \<Rightarrow> (ok, w'))"
    unfolding generatePresentation_def body_def main_def src_def Let_def by (rule refl)
  have b: "body w = (Inr True, w')"
    using assms unfolding gp by (auto split: prod.splits sum.splits)
  from b obtain u1 w1 where mk: "mkdir (SLIDES_DIR env) w = (Inr u1, w1)"
    and r1: "bindE (catchE (bindE (readFile src) (\<lambda>_. returnE True)) (\<lambda>_. returnE False)) (\<lambda>found.
        if \<not> found then returnE False else main) w1 = (Inr True, w')"
    unfolding body_def by (rule bindE_success)
  from r1 obtain found w2 where
    fc: "catchE (bindE (readFile src) (\<lambda>_. returnE True)) (\<lambda>_. returnE False) w1 = (Inr found, w2)"
    and r2: "(if \<not> found then returnE False else main) w2 = (Inr True, w')"
    by (rule bindE_success)
  have w2: "w2 = w1" using font_check_success [OF fc] .
  have "found" using r2 by (cases found) (simp_all add: returnE_def)
  then have m: "main w1 = (Inr True, w')" using r2 w2 by simp
  from m obtain fonts w3 where lf: "loadFonts env src w1 = (Inr fonts, w3)"
    and r3: "bindE (loadLogoDataUrl env) (\<lambda>logoDataUrl.
          bindE (loadLockedUpLogoDataUrl env) (\<lambda>lockedUpLogoDataUrl.
          bindE (generate_slides env (slides env fonts logoDataUrl lockedUpLogoDataUrl) [])
            (\<lambda>pngPaths.
          bindE (generatePDF env pngPaths (resolve (OUTPUT_DIR env) ''presentation.pdf'')) (\<lambda>_.
          bindE (cleanupSlides (SLIDES_DIR env)) (\<lambda>_.
          returnE True))))) w3 = (Inr True, w')"
    unfolding main_def by (rule bindE_success)
  from r3 obtain logoDataUrl w4 where l1: "loadLogoDataUrl env w3 = (Inr logoDataUrl, w4)"
    and r4: "bindE (loadLockedUpLogoDataUrl env) (\<lambda>lockedUpLogoDataUrl.
          bindE (generate_slides env (slides env fonts logoDataUrl lockedUpLogoDataUrl) [])
            (\<lambda>pngPaths.
          bindE (generatePDF env pngPaths (resolve (OUTPUT_DIR env) ''presentation.pdf'')) (\<lambda>_.
          bindE (cleanupSlides (SLIDES_DIR env)) (\<lambda>_.
          returnE True)))) w4 = (Inr True, w')"
    by (rule bindE_success)
  from r4 obtain lockedUpLogoDataUrl w5 where l2: "loadLockedUpLogoDataUrl env w4 = (Inr lockedUpLogoDataUrl, w5)"
    and r5: "bindE (generate_slides env (slides env fonts logoDataUrl lockedUpLogoDataUrl) [])
            (\<lambda>pngPaths.
          bindE (generatePDF env pngPaths (resolve (OUTPUT_DIR env) ''presentation.pdf'')) (\<lambda>_.
          bindE (cleanupSlides (SLIDES_DIR env)) (\<lambda>_.
          returnE True))) w5 = (Inr True, w')"
    by (rule bindE_success)
  from r5 obtain pngPaths w6 where
    gs: "generate_slides env (slides env fonts logoDataUrl lockedUpLogoDataUrl) [] w5 = (Inr pngPaths, w6)"
    and r6: "bindE (generatePDF env pngPaths (resolve (OUTPUT_DIR env) ''presentation.pdf'')) (\<lambda>_.
          bindE (cleanupSlides (SLIDES_DIR env)) (\<lambda>_.
          returnE True)) w6 = (Inr True, w')"
    by (rule bindE_success)
  from r6 obtain u7 w7 where
    pdf: "generatePDF env pngPaths (resolve (OUTPUT_DIR env) ''presentation.pdf'') w6 = (Inr u7, w7)"
    and r7: "bindE (cleanupSlides (SLIDES_DIR env)) (\<lambda>_. returnE True) w7 = (Inr True, w')"
    by (rule bindE_success)
  from r7 obtain u8 w8 where cl: "cleanupSlides (SLIDES_DIR env) w7 = (Inr u8, w8)"
    and r8: "returnE True w8 = (Inr True, w')"
    by (rule bindE_success)
  have w8: "w8 = w'" using r8 by (simp add: returnE_def)
  have w45: "w4 = w3" "w5 = w3"
    using loadLogoDataUrl_success [OF l1] loadLockedUpLogoDataUrl_success [OF l2] by simp_all
  show thesis
    using that [of w1 src fonts w3 logoDataUrl lockedUpLogoDataUrl pngPaths w6 w7]
      mk lf gs pdf cl w8 w45 by simp
qed
lemma only_spawns_mkdir: "stable_mkdir (only_spawns evs0) p"
  by (simp add: stable_mkdir_def only_spawns_def)

lemma only_spawns_store: "stable_store (only_spawns evs0) p"
  by (simp add: stable_store_def only_spawns_def)

lemma only_spawns_log: "stable_log (only_spawns evs0) (Spawn i p wt)"
  by (auto simp: stable_log_def only_spawns_def written_append)

lemma written_slides:
  "written (concat (map (\<lambda>s. [Generate (fst s), Write (f s)]) sl)) = map f sl"
  by (induction sl) simp_all

lemma slides_names:
  "map fst (slides env fonts logoDataUrl lockedUpLogoDataUrl) =
     [''01-title'', ''02-discord'', ''03-nuitdelinfo'', ''04-programme'',
      ''05-escape-game'', ''06-asso'', ''07-sujet'']"
  by (simp add: slides_def)

lemma slides_distinct: "distinct (map fst (slides env fonts logoDataUrl lockedUpLogoDataUrl))"
  unfolding slides_names by simp

lemma pages_of_slides:
  assumes "list_all2 (\<lambda>s p. \<exists>svg png. snd s = Inr svg \<and> svgToPng env svg = Inr png
                       \<and> map_of (entries w) p = Some (File png)) sl ps"
    and "list_all2 (\<lambda>p page. \<exists>img. holds_image env w p img \<and> full_bleed img page) ps pages"
  shows "list_all2 (\<lambda>s page. \<exists>svg png img. snd s = Inr svg \<and> svgToPng env svg = Inr png
                       \<and> embedPng env png = Inr img \<and> full_bleed img page) sl pages"
  using assms
proof (induction sl ps arbitrary: pages rule: list_all2_induct)
  case Nil
  then show ?case by simp
next
  case (Cons s sl p ps)
  from Cons.prems obtain page rest where pages: "pages = page # rest"
    and pg: "\<exists>img. holds_image env w p img \<and> full_bleed img page"
    and rest: "list_all2 (\<lambda>p page. \<exists>img. holds_image env w p img \<and> full_bleed img page) ps rest"
    by (auto simp: list_all2_Cons1)
  from Cons.hyps(1) obtain svg png where s: "snd s = Inr svg" "svgToPng env svg = Inr png"
    "map_of (entries w) p = Some (File png)" by blast
  from pg obtain img where img: "holds_image env w p img" "full_bleed img page" by blast
  have "embedPng env png = Inr img" using img(1) s(3) by (simp add: holds_image_def)
  then have "\<exists>svg png img. snd s = Inr svg \<and> svgToPng env svg = Inr png
      \<and> embedPng env png = Inr img \<and> full_bleed img page"
    using s img(2) by blast
  then show ?case using Cons.IH [OF rest] pages by simp
qed

lemma pdf_kept_unlink:
  "endsWith nm ''.png'' \<Longrightarrow>
   stable_unlink (\<lambda>w. events w = evs \<and> map_of (entries w) (resolve (OUTPUT_DIR env) ''presentation.pdf'') = Some n)
     (resolve (SLIDES_DIR env) nm)"
  using output_paths_differ(2) [of env nm]
  by (simp add: stable_unlink_def delete_conv')

lemma demo_run: "fst (generatePresentation demo_env False None demo_world) = True"
  by code_simp

text \<open>
  C2. A run of \<open>generatePresentation\<close> that returns \<open>True\<close> has written, in this order, the
  seven slide rasters and then one document, at the output path
  \<^verbatim>\<open>output/presentation.pdf\<close>. The file at that path is the serialised form of a document
  of exactly 7 pages, and the pages are, in order, the full-bleed rasters of the slides in
  the order of \<open>slides\<close>: title, Discord, Nuit de l'Info, programme, escape game,
  association, subject.
\<close>

theorem generatePresentation_document:
  assumes "generatePresentation env verbose fontPath w = (True, w')"
  shows "\<exists>fonts logoDataUrl lockedUpLogoDataUrl pdfDoc pdfBytes evs.
      events w' = events w @ evs
    \<and> written evs =
        map (\<lambda>nm. resolve (SLIDES_DIR env) (nm @ ''.png''))
          [''01-title'', ''02-discord'', ''03-nuitdelinfo'', ''04-programme'',
           ''05-escape-game'', ''06-asso'', ''07-sujet'']
        @ [resolve (OUTPUT_DIR env) ''presentation.pdf'']
    \<and> map_of (entries w') (resolve (OUTPUT_DIR env) ''presentation.pdf'') = Some (File pdfBytes)
    \<and> serialize env pdfDoc = Inr pdfBytes
    \<and> length pdfDoc = 7
    \<and> list_all2 (\<lambda>slide page. \<exists>svg png img. snd slide = Inr svg \<and> svgToPng env svg = Inr png
                      \<and> embedPng env png = Inr img \<and> full_bleed img page)
        (slides env fonts logoDataUrl lockedUpLogoDataUrl) pdfDoc"
proof -
  let ?pdf = "resolve (OUTPUT_DIR env) ''presentation.pdf''"
  from assms obtain src w1 fonts w3 logoDataUrl lockedUpLogoDataUrl pngPaths w6 w7 where
    mk: "mkdir (SLIDES_DIR env) w = (Inr (), w1)"
    and lf: "loadFonts env src w1 = (Inr fonts, w3)"
    and gs: "generate_slides env (slides env fonts logoDataUrl lockedUpLogoDataUrl) [] w3 = (Inr pngPaths, w6)"
    and pdf: "generatePDF env pngPaths ?pdf w6 = (Inr (), w7)"
    and cl: "cleanupSlides (SLIDES_DIR env) w7 = (Inr (), w')"
    by (rule generatePresentation_success)
  let ?sl = "slides env fonts logoDataUrl lockedUpLogoDataUrl"
  let ?path = "\<lambda>s. resolve (SLIDES_DIR env) (fst s @ ''.png'')"
  have e1: "events w1 = events w" using mkdir_effect(1) [OF mk] .
  have s1: "only_spawns (events w) w1" using e1 by (simp add: only_spawns_def)
  have "keeps (only_spawns (events w)) (loadFonts env src)"
    by (intro keeps_loadFonts only_spawns_mkdir only_spawns_store only_spawns_log)
  from keepsD [OF this s1 lf] obtain evs0 where e3: "events w3 = events w @ evs0" "written evs0 = []"
    by (auto simp: only_spawns_def)
  from generate_slides_success [OF gs slides_distinct] have
    paths: "pngPaths = map ?path ?sl"
    and e6: "events w6 = events w3
        @ concat (map (\<lambda>s. [Generate (fst s), Write (?path s)]) ?sl)"
    and files: "list_all2 (\<lambda>s p. \<exists>svg png. snd s = Inr svg \<and> svgToPng env svg = Inr png
                       \<and> map_of (entries w6) p = Some (File png)) ?sl (map ?path ?sl)"
    by simp_all
  from generatePDF_success [OF pdf] obtain pdfDoc pdfBytes where
    pages: "list_all2 (\<lambda>p page. \<exists>img. holds_image env w6 p img \<and> full_bleed img page) pngPaths pdfDoc"
    and sv: "save env pdfDoc = Inr pdfBytes"
    and w7: "w7 = w6\<lparr>entries := AList.update ?pdf (File pdfBytes) (entries w6),
              events := events w6 @ [Write ?pdf]\<rparr>"
    by blast
  have all: "list_all2 (\<lambda>slide page. \<exists>svg png img. snd slide = Inr svg \<and> svgToPng env svg = Inr png
                      \<and> embedPng env png = Inr img \<and> full_bleed img page) ?sl pdfDoc"
    using pages_of_slides [OF files] pages paths by simp
  have len: "length pdfDoc = 7"
    using list_all2_lengthD [OF all] by (simp add: slides_def)
  then have "pdfDoc \<noteq> []" by auto
  then have sr: "serialize env pdfDoc = Inr pdfBytes"
    using sv by (simp add: save_def saved_pages_nonempty)
  let ?I = "\<lambda>w. events w = events w7 \<and> map_of (entries w) ?pdf = Some (File pdfBytes)"
  have i7: "?I w7" by (simp add: w7 update_conv')
  have "keeps ?I (cleanupSlides (SLIDES_DIR env))"
    by (intro keeps_cleanupSlides pdf_kept_unlink)
  from keepsD [OF this i7 cl] have fin: "?I w'" .
  let ?evs = "evs0 @ concat (map (\<lambda>s. [Generate (fst s), Write (?path s)]) ?sl) @ [Write ?pdf]"
  have ev: "events w' = events w @ ?evs" using fin e6 e3(1) by (simp add: w7)
  have "written ?evs = map ?path ?sl @ [?pdf]"
    by (simp add: written_append e3(2) written_slides)
  also have "map ?path ?sl = map (\<lambda>nm. resolve (SLIDES_DIR env) (nm @ ''.png'')) (map fst ?sl)"
    by simp
  finally have wr: "written ?evs =
        map (\<lambda>nm. resolve (SLIDES_DIR env) (nm @ ''.png''))
          [''01-title'', ''02-discord'', ''03-nuitdelinfo'', ''04-programme'',
           ''05-escape-game'', ''06-asso'', ''07-sujet'']
        @ [?pdf]"
    unfolding slides_names .
  show ?thesis using ev wr fin sr len all by blast
qed

theorem generatePresentation_document_witness:
  "fst (generatePresentation demo_env False None demo_world) = True
   \<and> (\<exists>fonts logoDataUrl lockedUpLogoDataUrl pdfDoc pdfBytes evs.
      events (snd (generatePresentation demo_env False None demo_world)) = events demo_world @ evs
    \<and> written evs =
        map (\<lambda>nm. resolve (SLIDES_DIR demo_env) (nm @ ''.png''))
          [''01-title'', ''02-discord'', ''03-nuitdelinfo'', ''04-programme'',
           ''05-escape-game'', ''06-asso'', ''07-sujet'']
        @ [resolve (OUTPUT_DIR demo_env) ''presentation.pdf'']
    \<and> map_of (entries (snd (generatePresentation demo_env False None demo_world)))
          (resolve (OUTPUT_DIR demo_env) ''presentation.pdf'') = Some (File pdfBytes)
    \<and> serialize demo_env pdfDoc = Inr pdfBytes
    \<and> length pdfDoc = 7
    \<and> list_all2 (\<lambda>slide page. \<exists>svg png img. snd slide = Inr svg \<and> svgToPng demo_env svg = Inr png
                      \<and> embedPng demo_env png = Inr img \<and> full_bleed img page)
        (slides demo_env fonts logoDataUrl lockedUpLogoDataUrl) pdfDoc)"
proof -
  have run: "generatePresentation demo_env False None demo_world
      = (True, snd (generatePresentation demo_env False None demo_world))"
    using demo_run by (metis prod.collapse)
  show ?thesis using demo_run generatePresentation_document [OF run] by blast
qed

section \<open>Properties of the cleanup\<close>

lemma reported_bindE:
  assumes "keeps J m" and "\<And>a. reported J (f a)"
  shows "reported J (bindE m f)"
  unfolding reported_def
proof (intro allI impI)
  fix w assume w: "J w"
  obtain r w1 where m: "m w = (r, w1)" by (cases "m w")
  have w1: "J w1" using keepsD [OF assms(1) w m] .
  show "J (snd (bindE m f w)) \<or> fst (bindE m f w) = Inr True"
  proof (cases r)
    case (Inl e)
    then show ?thesis using m w1 by (simp add: bindE_def)
  next
    case (Inr a)
    from assms(2) [of a] w1 show ?thesis using m Inr by (simp add: bindE_def reported_def)
  qed
qed

lemma reported_returnE: "reported J (returnE a)"
  by (simp add: reported_def returnE_def)

lemma reported_if: "reported J m \<Longrightarrow> reported J n \<Longrightarrow> reported J (if c then m else n)"
  by simp

lemma reported_after_pdf:
  "reported J (bindE (generatePDF env ps out) (\<lambda>_. bindE (cleanupSlides d) (\<lambda>_. returnE True)))"
  unfolding reported_def
proof (intro allI impI)
  fix w assume w: "J w"
  let ?m = "bindE (generatePDF env ps out) (\<lambda>_. bindE (cleanupSlides d) (\<lambda>_. returnE True))"
  obtain r w1 where g: "generatePDF env ps out w = (r, w1)" by (cases "generatePDF env ps out w")
  show "J (snd (?m w)) \<or> fst (?m w) = Inr True"
  proof (cases r)
    case (Inl e)
    then have "w1 = w" using g generatePDF_failure by blast
    then show ?thesis using g Inl w by (simp add: bindE_def)
  next
    case (Inr u)
    obtain r2 w2 where c: "cleanupSlides d w1 = (r2, w2)" by (cases "cleanupSlides d w1")
    then have "r2 = Inr ()" using cleanupSlides_returns [of d w1] by simp
    then show ?thesis using g Inr c by (simp add: bindE_def returnE_def)
  qed
qed

lemma not_written_mkdir: "stable_mkdir (not_written p evs0) q"
  by (simp add: stable_mkdir_def not_written_def)

lemma not_written_store: "stable_store (not_written p evs0) q"
  by (simp add: stable_store_def not_written_def)

lemma not_written_spawn: "stable_log (not_written p evs0) (Spawn i q wt)"
  by (auto simp: stable_log_def not_written_def written_append)

lemma not_written_generate: "stable_log (not_written p evs0) (Generate nm)"
  by (auto simp: stable_log_def not_written_def written_append)

lemma not_written_write: "q \<noteq> p \<Longrightarrow> stable_log (not_written p evs0) (Write q)"
  by (auto simp: stable_log_def not_written_def written_append)

lemma generatePresentation_reported:
  "reported (not_written (resolve (OUTPUT_DIR env) ''presentation.pdf'') evs0)
     (bindE (mkdir (SLIDES_DIR env)) (\<lambda>_.
        let fontSourcePath =
              (case fontPath of
                 None \<Rightarrow> DEFAULT_FONT env
               | Some p \<Rightarrow> if p = [] then DEFAULT_FONT env else p)
        in
        bindE (catchE (bindE (readFile fontSourcePath) (\<lambda>_. returnE True))
                 (\<lambda>_. returnE False)) (\<lambda>found.
        if \<not> found then returnE False
        else
          bindE (loadFonts env fontSourcePath) (\<lambda>fonts.
          bindE (loadLogoDataUrl env) (\<lambda>logoDataUrl.
          bindE (loadLockedUpLogoDataUrl env) (\<lambda>lockedUpLogoDataUrl.
          bindE (generate_slides env (slides env fonts logoDataUrl lockedUpLogoDataUrl) [])
            (\<lambda>pngPaths.
          let pdfPath = resolve (OUTPUT_DIR env) ''presentation.pdf'' in
          bindE (generatePDF env pngPaths pdfPath) (\<lambda>_.
          bindE (cleanupSlides (SLIDES_DIR env)) (\<lambda>_.
          returnE True)))))))))"
  unfolding Let_def
  apply (rule reported_bindE [OF keeps_mkdir [OF not_written_mkdir]])
  apply (rule reported_bindE)
   apply (intro keeps_catchE keeps_bindE keeps_readFile keeps_returnE)
  apply (rule reported_if)
   apply (rule reported_returnE)
  apply (rule reported_bindE)
   apply (intro keeps_loadFonts not_written_mkdir not_written_store not_written_spawn)
  apply (rule reported_bindE [OF keeps_loadLogoDataUrl])
  apply (rule reported_bindE [OF keeps_loadLockedUpLogoDataUrl])
  apply (rule reported_bindE)
   apply (intro keeps_generate_slides not_written_store not_written_generate not_written_write)
   apply (rule output_paths_differ(2) [symmetric])
  apply (rule reported_after_pdf)
  done

lemma demo_stale_run:
  "generatePresentation demo_env False None demo_stale = (True, demo_stale_after)"
  by code_simp

text \<open>
  C8. \<open>cleanupSlides\<close> returns for every directory path and every world, whatever
  \<^verbatim>\<open>readdir\<close> and \<^verbatim>\<open>unlink\<close> throw; and a run that has written the document, that is,
  one that has reached the cleanup, returns \<open>True\<close> whatever the cleanup does.
\<close>

theorem cleanupSlides_swallowed:
  "(\<exists>w1. cleanupSlides slidesDir w0 = (Inr (), w1))
   \<and> (generatePresentation env verbose fontPath w = (ok, w')
        \<and> events w' = events w @ evs
        \<and> resolve (OUTPUT_DIR env) ''presentation.pdf'' \<in> set (written evs)
      \<longrightarrow> ok)"
proof (intro conjI impI)
  show "\<exists>w1. cleanupSlides slidesDir w0 = (Inr (), w1)"
    using cleanupSlides_returns [of slidesDir w0] by (metis prod.collapse)
next
  let ?pdf = "resolve (OUTPUT_DIR env) ''presentation.pdf''"
  assume a: "generatePresentation env verbose fontPath w = (ok, w')
        \<and> events w' = events w @ evs \<and> ?pdf \<in> set (written evs)"
  have start: "not_written ?pdf (events w) w" by (simp add: not_written_def)
  show ok
  proof (rule ccontr)
    assume "\<not> ok"
    obtain r w2 where b: "bindE (mkdir (SLIDES_DIR env)) (\<lambda>_.
        let fontSourcePath =
              (case fontPath of
                 None \<Rightarrow> DEFAULT_FONT env
               | Some p \<Rightarrow> if p = [] then DEFAULT_FONT env else p)
        in
        bindE (catchE (bindE (readFile fontSourcePath) (\<lambda>_. returnE True))
                 (\<lambda>_. returnE False)) (\<lambda>found.
        if \<not> found then returnE False
        else
          bindE (loadFonts env fontSourcePath) (\<lambda>fonts.
          bindE (loadLogoDataUrl env) (\<lambda>logoDataUrl.
          bindE (loadLockedUpLogoDataUrl env) (\<lambda>lockedUpLogoDataUrl.
          bindE (generate_slides env (slides env fonts logoDataUrl lockedUpLogoDataUrl) [])
            (\<lambda>pngPaths.
          let pdfPath = resolve (OUTPUT_DIR env) ''presentation.pdf'' in
          bindE (generatePDF env pngPaths pdfPath) (\<lambda>_.
          bindE (cleanupSlides (SLIDES_DIR env)) (\<lambda>_.
          returnE True)))))))) w = (r, w2)"
      by (meson surj_pair)
    have gp: "generatePresentation env verbose fontPath w
        = (case (r, w2) of (Inl e, w') \<Rightarrow> (False, w') | (Inr ok, w') \<Rightarrow> (ok, w'))"
      unfolding generatePresentation_def b [symmetric] by (rule refl)
    have w2: "w2 = w'" and r: "r \<noteq> Inr True"
      using a gp \<open>\<not> ok\<close> by (auto split: sum.splits)
    from generatePresentation_reported [of env "events w" fontPath] start b
    have "not_written ?pdf (events w) w2 \<or> r = Inr True"
      by (auto simp: reported_def)
    then have "not_written ?pdf (events w) w'" using r w2 by simp
    then show False using a by (auto simp: not_written_def)
  qed
qed

theorem cleanupSlides_swallowed_witness:
  "fst (unlink_pngs (SLIDES_DIR demo_env) [''00-old.png''] demo_stale)
     = Inl (EPERM ''/r/output/slides/00-old.png'')
   \<and> (\<exists>w1. cleanupSlides (SLIDES_DIR demo_env) demo_stale = (Inr (), w1))
   \<and> resolve (OUTPUT_DIR demo_env) ''presentation.pdf'' \<in> set (written (events demo_stale_after))
   \<and> fst (generatePresentation demo_env False None demo_stale)"
proof -
  let ?run = "generatePresentation demo_env False None demo_stale"
  have thrown: "fst (unlink_pngs (SLIDES_DIR demo_env) [''00-old.png''] demo_stale)
     = Inl (EPERM ''/r/output/slides/00-old.png'')"
    by code_simp
  have pdf: "resolve (OUTPUT_DIR demo_env) ''presentation.pdf'' \<in> set (written (events demo_stale_after))"
    by code_simp
  have run: "?run = (fst ?run, demo_stale_after)" by (simp add: demo_stale_run)
  have ev: "events demo_stale_after = events demo_stale @ events demo_stale_after"
    by (simp add: demo_stale_def)
  show ?thesis
    using thrown pdf run ev
      cleanupSlides_swallowed [of "SLIDES_DIR demo_env" demo_stale demo_env False None
        demo_stale "fst ?run" demo_stale_after "events demo_stale_after"]
    by blast
qed

lemma child_name_Some:
  assumes "child_name d p = Some nm"
  shows "p = resolve d nm" and "CHR ''/'' \<notin> set nm"
proof -
  let ?k = "length (d @ ''/'')"
  from assms have t: "take ?k p = d @ ''/''" and n: "nm = drop ?k p" and s: "CHR ''/'' \<notin> set nm"
    by (auto simp: child_name_def Let_def split: if_splits)
  have "p = take ?k p @ drop ?k p" by simp
  then show "p = resolve d nm" unfolding t n [symmetric] by (simp add: resolve_def)
  show "CHR ''/'' \<notin> set nm" by (rule s)
qed

lemma resolve_inject: "resolve d a = resolve d b \<longleftrightarrow> a = b"
  by (simp add: resolve_def)

lemma set_map_filter: "set (List.map_filter f xs) = {a. \<exists>x \<in> set xs. f x = Some a}"
  by (induction xs) (auto simp: List.map_filter_simps split: option.splits)

lemma distinct_map_filter:
  assumes "distinct xs"
    and "\<And>x y a. f x = Some a \<Longrightarrow> f y = Some a \<Longrightarrow> x = y"
  shows "distinct (List.map_filter f xs)"
  using assms(1)
proof (induction xs)
  case Nil
  then show ?case by (simp add: List.map_filter_simps)
next
  case (Cons x xs)
  show ?case
  proof (cases "f x")
    case None
    then show ?thesis using Cons by (simp add: List.map_filter_simps)
  next
    case (Some a)
    have "a \<notin> set (List.map_filter f xs)"
    proof
      assume "a \<in> set (List.map_filter f xs)"
      then obtain y where "y \<in> set xs" "f y = Some a" by (auto simp: set_map_filter)
      then have "x = y" using assms(2) Some by blast
      then show False using \<open>y \<in> set xs\<close> Cons.prems by simp
    qed
    then show ?thesis using Cons Some by (simp add: List.map_filter_simps)
  qed
qed

lemma readdir_Dir:
  "map_of (entries w) d = Some Dir \<Longrightarrow>
     readdir d w = (Inr (List.map_filter (child_name d) (map fst (entries w))), w)"
  by (simp add: readdir_def)

lemma unlink_pngs_all:
  assumes "distinct ns"
    and "\<forall>n \<in> set ns. endsWith n ''.png'' \<longrightarrow> (\<exists>b. map_of (entries w) (resolve d n) = Some (File b))"
  shows "\<exists>w'. unlink_pngs d ns w = (Inr (), w')
           \<and> (\<forall>p. map_of (entries w') p =
                 (if \<exists>n \<in> set ns. endsWith n ''.png'' \<and> p = resolve d n then None
                  else map_of (entries w) p))"
  using assms
proof (induction ns arbitrary: w)
  case Nil
  then show ?case by (simp add: returnE_def)
next
  case (Cons n ns)
  have d: "distinct ns" and nn: "n \<notin> set ns" using Cons.prems(1) by simp_all
  show ?case
  proof (cases "endsWith n ''.png''")
    case False
    have pre: "\<forall>m \<in> set ns. endsWith m ''.png'' \<longrightarrow> (\<exists>b. map_of (entries w) (resolve d m) = Some (File b))"
      using Cons.prems(2) by simp
    from Cons.IH [OF d pre] obtain w' where
      w': "unlink_pngs d ns w = (Inr (), w')"
        "\<forall>p. map_of (entries w') p =
                 (if \<exists>m \<in> set ns. endsWith m ''.png'' \<and> p = resolve d m then None
                  else map_of (entries w) p)"
      by blast
    have "unlink_pngs d (n # ns) w = (Inr (), w')"
      using False w'(1) by (simp add: bindE_def returnE_def)
    moreover have "\<forall>p. map_of (entries w') p =
                 (if \<exists>m \<in> set (n # ns). endsWith m ''.png'' \<and> p = resolve d m then None
                  else map_of (entries w) p)"
      using w'(2) False by auto
    ultimately show ?thesis by blast
  next
    case True
    then obtain b where b: "map_of (entries w) (resolve d n) = Some (File b)"
      using Cons.prems(2) by auto
    let ?w1 = "w\<lparr>entries := AList.delete (resolve d n) (entries w)\<rparr>"
    have u: "unlink (resolve d n) w = (Inr (), ?w1)" using b by (simp add: unlink_def)
    have m1: "\<And>p. map_of (entries ?w1) p = (if p = resolve d n then None else map_of (entries w) p)"
      by (simp add: delete_conv')
    have pre: "\<forall>m \<in> set ns. endsWith m ''.png'' \<longrightarrow> (\<exists>b. map_of (entries ?w1) (resolve d m) = Some (File b))"
    proof (intro ballI impI)
      fix m assume m: "m \<in> set ns" "endsWith m ''.png''"
      then have "m \<noteq> n" using nn by blast
      then have "resolve d m \<noteq> resolve d n" by (simp add: resolve_inject)
      then show "\<exists>b. map_of (entries ?w1) (resolve d m) = Some (File b)"
        using Cons.prems(2) m by (simp add: m1)
    qed
    from Cons.IH [OF d pre] obtain w' where
      w': "unlink_pngs d ns ?w1 = (Inr (), w')"
        "\<forall>p. map_of (entries w') p =
                 (if \<exists>m \<in> set ns. endsWith m ''.png'' \<and> p = resolve d m then None
                  else map_of (entries ?w1) p)"
      by blast
    have "unlink_pngs d (n # ns) w = (Inr (), w')"
      using True u w'(1) by (simp add: bindE_def)
    moreover have "\<forall>p. map_of (entries w') p =
                 (if \<exists>m \<in> set (n # ns). endsWith m ''.png'' \<and> p = resolve d m then None
                  else map_of (entries w) p)"
      using w'(2) True m1 by auto
    ultimately show ?thesis by blast
  qed
qed

lemma cleanupSlides_tidy:
  assumes t: "tidy env w" and c: "cleanupSlides (SLIDES_DIR env) w = (r, w')"
  shows "\<exists>files. readdir (SLIDES_DIR env) w' = (Inr files, w')
           \<and> (\<forall>file \<in> set files. \<not> endsWith file ''.png'')"
proof -
  let ?d = "SLIDES_DIR env"
  let ?ns = "List.map_filter (child_name ?d) (map fst (entries w))"
  have dir: "map_of (entries w) ?d = Some Dir" and dist: "distinct (map fst (entries w))"
    using t by (simp_all add: tidy_def)
  have rd: "readdir ?d w = (Inr ?ns, w)" using dir by (rule readdir_Dir)
  have dns: "distinct ?ns"
  proof (rule distinct_map_filter [OF dist])
    fix x y a assume "child_name ?d x = Some a" "child_name ?d y = Some a"
    then show "x = y" using child_name_Some(1) by blast
  qed
  have files: "\<forall>n \<in> set ?ns. endsWith n ''.png'' \<longrightarrow> (\<exists>b. map_of (entries w) (resolve ?d n) = Some (File b))"
  proof (intro ballI impI)
    fix n assume n: "n \<in> set ?ns" "endsWith n ''.png''"
    then obtain p where p: "p \<in> set (map fst (entries w))" "child_name ?d p = Some n"
      by (auto simp: set_map_filter)
    have pn: "p = resolve ?d n" and sl: "CHR ''/'' \<notin> set n" using child_name_Some [OF p(2)] by simp_all
    have "map_of (entries w) p \<noteq> None" using p(1) by (simp add: map_of_eq_None_iff)
    then obtain e where e: "map_of (entries w) (resolve ?d n) = Some e" using pn by auto
    have "e \<noteq> Dir" using t n(2) sl e by (auto simp: tidy_def)
    then show "\<exists>b. map_of (entries w) (resolve ?d n) = Some (File b)" using e by (cases e) simp_all
  qed
  from unlink_pngs_all [OF dns files] obtain w1 where
    u: "unlink_pngs ?d ?ns w = (Inr (), w1)"
    and m: "\<forall>p. map_of (entries w1) p =
                 (if \<exists>n \<in> set ?ns. endsWith n ''.png'' \<and> p = resolve ?d n then None
                  else map_of (entries w) p)"
    by blast
  have "cleanupSlides ?d w = (Inr (), w1)"
    using rd u by (simp add: cleanupSlides_def catchE_def bindE_def)
  then have w': "w' = w1" using c by simp
  have "map_of (entries w1) ?d = Some Dir"
    using m dir output_paths_differ(4) [of env] by auto
  then have rd1: "readdir ?d w1 = (Inr (List.map_filter (child_name ?d) (map fst (entries w1))), w1)"
    by (rule readdir_Dir)
  have "\<forall>file \<in> set (List.map_filter (child_name ?d) (map fst (entries w1))). \<not> endsWith file ''.png''"
  proof (intro ballI notI)
    fix nm assume f: "nm \<in> set (List.map_filter (child_name ?d) (map fst (entries w1)))"
      and png: "endsWith nm ''.png''"
    then obtain p where p: "p \<in> set (map fst (entries w1))" "child_name ?d p = Some nm"
      by (auto simp: set_map_filter)
    have pn: "p = resolve ?d nm" using child_name_Some(1) [OF p(2)] .
    have here: "map_of (entries w1) p \<noteq> None" using p(1) by (simp add: map_of_eq_None_iff)
    then have notdel: "\<not> (\<exists>n \<in> set ?ns. endsWith n ''.png'' \<and> p = resolve ?d n)"
      and before: "map_of (entries w) p \<noteq> None"
      using m by (auto split: if_splits)
    from before have "p \<in> set (map fst (entries w))" by (simp add: map_of_eq_None_iff)
    then have "nm \<in> set ?ns" using p(2) by (auto simp: set_map_filter)
    then show False using notdel png pn by blast
  qed
  then show ?thesis using rd1 w' by blast
qed

lemma tidy_update_File:
  assumes t: "tidy env w" and q: "map_of (entries w) q \<noteq> Some Dir"
  shows "tidy env (w\<lparr>entries := AList.update q (File b) (entries w)\<rparr>)"
proof -
  let ?m = "map_of (AList.update q (File b) (entries w))"
  have m: "\<And>p. ?m p = (if p = q then Some (File b) else map_of (entries w) p)"
    by (simp add: update_conv')
  have dir: "map_of (entries w) (SLIDES_DIR env) = Some Dir" using t by (simp add: tidy_def)
  then have "SLIDES_DIR env \<noteq> q" using q by auto
  then have a: "?m (SLIDES_DIR env) = Some Dir" using dir by (simp add: m)
  have b: "\<not> (\<exists>nm. endsWith nm ''.png'' \<and> CHR ''/'' \<notin> set nm
               \<and> ?m (resolve (SLIDES_DIR env) nm) = Some Dir)"
  proof
    assume "\<exists>nm. endsWith nm ''.png'' \<and> CHR ''/'' \<notin> set nm
               \<and> ?m (resolve (SLIDES_DIR env) nm) = Some Dir"
    then obtain nm where nm: "endsWith nm ''.png''" "CHR ''/'' \<notin> set nm"
      "?m (resolve (SLIDES_DIR env) nm) = Some Dir" by blast
    from nm(3) have "map_of (entries w) (resolve (SLIDES_DIR env) nm) = Some Dir"
      unfolding m by (simp split: if_splits)
    then show False using t nm(1,2) unfolding tidy_def by blast
  qed
  have c: "distinct (map fst (AList.update q (File b) (entries w)))"
    using t by (simp add: tidy_def distinct_update del: map_of_eq_Some_iff)
  show ?thesis unfolding tidy_def using a b c by simp
qed

lemma tidy_update_Dir:
  assumes t: "distinct (map fst (entries w))"
      "\<not> (\<exists>nm. endsWith nm ''.png'' \<and> CHR ''/'' \<notin> set nm
               \<and> map_of (entries w) (resolve (SLIDES_DIR env) nm) = Some Dir)"
    and s: "q = SLIDES_DIR env \<or> map_of (entries w) (SLIDES_DIR env) = Some Dir"
    and q: "map_of (entries w) q = None" "\<And>nm. q \<noteq> resolve (SLIDES_DIR env) nm"
  shows "tidy env (w\<lparr>entries := AList.update q Dir (entries w)\<rparr>)"
proof -
  let ?m = "map_of (AList.update q Dir (entries w))"
  have m: "\<And>p. ?m p = (if p = q then Some Dir else map_of (entries w) p)"
    by (simp add: update_conv')
  have a: "?m (SLIDES_DIR env) = Some Dir" using s by (auto simp: m)
  have b: "\<not> (\<exists>nm. endsWith nm ''.png'' \<and> CHR ''/'' \<notin> set nm
               \<and> ?m (resolve (SLIDES_DIR env) nm) = Some Dir)"
  proof
    assume "\<exists>nm. endsWith nm ''.png'' \<and> CHR ''/'' \<notin> set nm
               \<and> ?m (resolve (SLIDES_DIR env) nm) = Some Dir"
    then obtain nm where nm: "endsWith nm ''.png''" "CHR ''/'' \<notin> set nm"
      "?m (resolve (SLIDES_DIR env) nm) = Some Dir" by blast
    have "resolve (SLIDES_DIR env) nm \<noteq> q" using q(2) [of nm] by simp
    with nm(3) have "map_of (entries w) (resolve (SLIDES_DIR env) nm) = Some Dir"
      unfolding m by simp
    then show False using t(2) nm(1,2) by blast
  qed
  have c: "distinct (map fst (AList.update q Dir (entries w)))"
    using t(1) by (simp add: distinct_update)
  show ?thesis unfolding tidy_def using a b c by simp
qed

lemma tidy_store: "stable_store (tidy env) q"
  unfolding stable_store_def by (intro allI impI tidy_update_File)

lemma tidy_mkdir_cache: "stable_mkdir (tidy env) (CACHE_DIR env)"
  unfolding stable_mkdir_def
proof (intro allI impI)
  fix w assume t: "tidy env w" and n: "map_of (entries w) (CACHE_DIR env) = None"
  show "tidy env (w\<lparr>entries := AList.update (CACHE_DIR env) Dir (entries w)\<rparr>)"
  proof (rule tidy_update_Dir)
    show "distinct (map fst (entries w))" using t by (simp add: tidy_def del: map_of_eq_Some_iff)
    show "\<not> (\<exists>nm. endsWith nm ''.png'' \<and> CHR ''/'' \<notin> set nm
               \<and> map_of (entries w) (resolve (SLIDES_DIR env) nm) = Some Dir)"
      using t unfolding tidy_def by blast
    show "CACHE_DIR env = SLIDES_DIR env \<or> map_of (entries w) (SLIDES_DIR env) = Some Dir"
      using t unfolding tidy_def by blast
    show "map_of (entries w) (CACHE_DIR env) = None" by (rule n)
    show "\<And>nm. CACHE_DIR env \<noteq> resolve (SLIDES_DIR env) nm" by (rule output_paths_differ(3))
  qed
qed

lemma tidy_log: "stable_log (tidy env) ev"
  by (simp add: stable_log_def tidy_def del: map_of_eq_Some_iff)

lemma mkdir_success:
  assumes "mkdir p w = (Inr u, w')"
  shows "(w' = w \<and> map_of (entries w) p = Some Dir)
       \<or> (map_of (entries w) p = None \<and> w' = w\<lparr>entries := AList.update p Dir (entries w)\<rparr>)"
  using assms by (auto simp: mkdir_def split: option.splits node.splits)

lemma tidy_after_mkdir:
  assumes mk: "mkdir (SLIDES_DIR env) w = (Inr u, w')"
    and d: "distinct (map fst (entries w))"
    and n: "\<not> (\<exists>nm. endsWith nm ''.png'' \<and> CHR ''/'' \<notin> set nm
               \<and> map_of (entries w) (resolve (SLIDES_DIR env) nm) = Some Dir)"
  shows "tidy env w'"
  using mkdir_success [OF mk]
proof
  assume "w' = w \<and> map_of (entries w) (SLIDES_DIR env) = Some Dir"
  then show ?thesis using d n unfolding tidy_def by blast
next
  assume a: "map_of (entries w) (SLIDES_DIR env) = None
      \<and> w' = w\<lparr>entries := AList.update (SLIDES_DIR env) Dir (entries w)\<rparr>"
  have "tidy env (w\<lparr>entries := AList.update (SLIDES_DIR env) Dir (entries w)\<rparr>)"
    using d n
  proof (rule tidy_update_Dir)
    show "SLIDES_DIR env = SLIDES_DIR env \<or> map_of (entries w) (SLIDES_DIR env) = Some Dir" by simp
    show "map_of (entries w) (SLIDES_DIR env) = None" using a by simp
    show "\<And>nm. SLIDES_DIR env \<noteq> resolve (SLIDES_DIR env) nm" by (rule output_paths_differ(4))
  qed
  then show ?thesis using a by simp
qed

text \<open>
  C9, as the code has it. The claim as stated fails: where the slide directory holds a
  directory named like a raster and lists it first, \<^verbatim>\<open>unlink\<close> throws on it, the cleanup
  stops there, and the run still returns \<open>True\<close> with the seven rasters in place.
\<close>

theorem generatePresentation_cleanup_counterexample:
  "fst (generatePresentation demo_env False None demo_stale) = True
   \<and> fst (readdir (SLIDES_DIR demo_env) (snd (generatePresentation demo_env False None demo_stale)))
       = Inr [''00-old.png'', ''01-title.png'', ''02-discord.png'', ''03-nuitdelinfo.png'',
              ''04-programme.png'', ''05-escape-game.png'', ''06-asso.png'', ''07-sujet.png'']
   \<and> map_of (entries (snd (generatePresentation demo_env False None demo_stale)))
        ''/r/output/slides/01-title.png'' = Some (File [84])"
proof -
  have a: "fst (readdir (SLIDES_DIR demo_env) demo_stale_after)
       = Inr [''00-old.png'', ''01-title.png'', ''02-discord.png'', ''03-nuitdelinfo.png'',
              ''04-programme.png'', ''05-escape-game.png'', ''06-asso.png'', ''07-sujet.png'']"
    by code_simp
  have b: "map_of (entries demo_stale_after) ''/r/output/slides/01-title.png'' = Some (File [84])"
    by code_simp
  show ?thesis using a b by (simp add: demo_stale_run)
qed

text \<open>
  C9, amended. After a run that returns \<open>True\<close>, started on a store that names every path
  once and has no directory named \<^verbatim>\<open>*.png\<close> directly in the slide directory, the slide
  directory lists no name that ends in \<^verbatim>\<open>.png\<close>.
\<close>

theorem generatePresentation_cleanup:
  assumes run: "generatePresentation env verbose fontPath w = (True, w')"
    and dist: "distinct (map fst (entries w))"
    and nodir: "\<not> (\<exists>nm. endsWith nm ''.png'' \<and> CHR ''/'' \<notin> set nm
               \<and> map_of (entries w) (resolve (SLIDES_DIR env) nm) = Some Dir)"
  shows "\<exists>files. readdir (SLIDES_DIR env) w' = (Inr files, w')
           \<and> (\<forall>file \<in> set files. \<not> endsWith file ''.png'')"
proof -
  let ?pdf = "resolve (OUTPUT_DIR env) ''presentation.pdf''"
  from run obtain src w1 fonts w3 logoDataUrl lockedUpLogoDataUrl pngPaths w6 w7 where
    mk: "mkdir (SLIDES_DIR env) w = (Inr (), w1)"
    and lf: "loadFonts env src w1 = (Inr fonts, w3)"
    and gs: "generate_slides env (slides env fonts logoDataUrl lockedUpLogoDataUrl) [] w3 = (Inr pngPaths, w6)"
    and pdf: "generatePDF env pngPaths ?pdf w6 = (Inr (), w7)"
    and cl: "cleanupSlides (SLIDES_DIR env) w7 = (Inr (), w')"
    by (rule generatePresentation_success)
  have t1: "tidy env w1" using mk dist nodir by (rule tidy_after_mkdir)
  have "keeps (tidy env) (loadFonts env src)"
    by (intro keeps_loadFonts tidy_mkdir_cache tidy_store tidy_log)
  from keepsD [OF this t1 lf] have t3: "tidy env w3" .
  have "keeps (tidy env) (generate_slides env (slides env fonts logoDataUrl lockedUpLogoDataUrl) [])"
    by (intro keeps_generate_slides tidy_store tidy_log)
  from keepsD [OF this t3 gs] have t6: "tidy env w6" .
  have "keeps (tidy env) (generatePDF env pngPaths ?pdf)"
    by (intro keeps_generatePDF tidy_store tidy_log)
  from keepsD [OF this t6 pdf] have t7: "tidy env w7" .
  show ?thesis using t7 cl by (rule cleanupSlides_tidy)
qed

theorem generatePresentation_cleanup_witness:
  "fst (generatePresentation demo_env False None demo_world) = True
   \<and> distinct (map fst (entries demo_world))
   \<and> \<not> (\<exists>nm. endsWith nm ''.png'' \<and> CHR ''/'' \<notin> set nm
            \<and> map_of (entries demo_world) (resolve (SLIDES_DIR demo_env) nm) = Some Dir)
   \<and> (\<exists>files. readdir (SLIDES_DIR demo_env) (snd (generatePresentation demo_env False None demo_world))
                = (Inr files, snd (generatePresentation demo_env False None demo_world))
            \<and> (\<forall>file \<in> set files. \<not> endsWith file ''.png''))"
proof -
  have run: "generatePresentation demo_env False None demo_world
      = (True, snd (generatePresentation demo_env False None demo_world))"
    using demo_run by (metis prod.collapse)
  have d: "distinct (map fst (entries demo_world))" by (simp add: demo_world_def)
  have n: "\<not> (\<exists>nm. endsWith nm ''.png'' \<and> CHR ''/'' \<notin> set nm
            \<and> map_of (entries demo_world) (resolve (SLIDES_DIR demo_env) nm) = Some Dir)"
    by (auto simp: demo_world_def split: if_splits)
  show ?thesis using demo_run d n generatePresentation_cleanup [OF run d n] by blast
qed


end
